theory Spec2Isabelle
  imports Main "HOL-Library.Word"
begin

unbundle bit_operations_syntax

section \<open>LZAV: a shallow embedding of \<^verbatim>\<open>lzav.h\<close>\<close>

text \<open>
  The development follows the C header \<^verbatim>\<open>src/c/lzav.h\<close>: the compressed-size bounds,
  the block writers, the default and the higher-ratio compressor, and the format-2
  decoder with its two entry points. Every C function keeps its name.

  Conventions of the embedding.
  \<^item> Bytes and the 16/32/64-bit words of the hash and of the wire format are
    \<open>8 word\<close>, \<open>16 word\<close>, \<open>32 word\<close> and \<open>64 word\<close>.
  \<^item> A C \<^verbatim>\<open>int\<close> is an \<open>int\<close> whose arithmetic is wrapped to 32 bits by
    \<open>cint\<close> (two's complement, what the usual targets do on overflow).
  \<^item> A pointer into a buffer is the \<open>int\<close> offset from the start of the buffer, a
    \<^verbatim>\<open>size_t\<close> is an \<open>int\<close>; where the C code lets a \<^verbatim>\<open>size_t\<close> subtraction go
    below zero the wrap-around modulo \<open>2^64\<close> is written out with \<open>sz\<close>.
  \<^item> A buffer argument is the pair of its address (a \<open>nat\<close>, 0 is the null pointer)
    and the bytes of the object it points to; two distinct addresses denote two
    disjoint objects.
\<close>

type_synonym byte = "8 word"
type_synonym u16 = "16 word"
type_synonym u32 = "32 word"
type_synonym u64 = "64 word"

subsection \<open>Constants\<close>

definition LZAV_FMT_MIN :: int where "LZAV_FMT_MIN = 1"
definition LZAV_FMT_CUR :: int where "LZAV_FMT_CUR = 2"
definition LZAV_WIN_LEN :: int where "LZAV_WIN_LEN = 2 ^ 23"
definition LZAV_REF_MIN :: int where "LZAV_REF_MIN = 6"
definition LZAV_REF_LEN :: int where "LZAV_REF_LEN = LZAV_REF_MIN + 15 + 255 + 254"
definition LZAV_LIT_FIN :: int where "LZAV_LIT_FIN = 6"
definition LZAV_TINY_MAX :: int where "LZAV_TINY_MAX = 32"
definition LZAV_SMALL_MAX :: int where "LZAV_SMALL_MAX = 256"
definition LZAV_MIN_HTABLE :: int where "LZAV_MIN_HTABLE = 512"

definition LZAV_E_PARAMS :: int where "LZAV_E_PARAMS = - 1"
definition LZAV_E_SRCOOB :: int where "LZAV_E_SRCOOB = - 2"
definition LZAV_E_DSTOOB :: int where "LZAV_E_DSTOOB = - 3"
definition LZAV_E_REFOOB :: int where "LZAV_E_REFOOB = - 4"
definition LZAV_E_DSTLEN :: int where "LZAV_E_DSTLEN = - 5"
definition LZAV_E_UNKFMT :: int where "LZAV_E_UNKFMT = - 6"

subsection \<open>C integers\<close>

definition cint :: "int \<Rightarrow> int" where
  \<comment> \<open>the value of an \<^verbatim>\<open>int\<close> (or \<^verbatim>\<open>int32_t\<close>) expression: 32 bits, two's complement\<close>
  "cint x = signed_take_bit 31 x"

definition c_div :: "int \<Rightarrow> int \<Rightarrow> int" where
  \<comment> \<open>C's \<^verbatim>\<open>/\<close> on integers truncates towards zero\<close>
  "c_div a b = sgn a * sgn b * (\<bar>a\<bar> div \<bar>b\<bar>)"

definition sz :: "int \<Rightarrow> int" where
  \<comment> \<open>the value of a \<^verbatim>\<open>size_t\<close> expression on a 64-bit target\<close>
  "sz x = x mod 2 ^ 64"

definition s64 :: "int \<Rightarrow> int" where
  \<comment> \<open>the displacement a \<^verbatim>\<open>size_t\<close> stands for when it is added to a pointer\<close>
  "s64 x = signed_take_bit 63 x"

subsection \<open>Compressed-size bounds\<close>

text \<open>
  \<^verbatim>\<open>lzav_compress_bound\<close> and \<^verbatim>\<open>lzav_compress_bound_hi\<close>, operation by operation, each
  intermediate \<^verbatim>\<open>int\<close> wrapped to 32 bits.
\<close>

definition lzav_compress_bound :: "int \<Rightarrow> int" where
  "lzav_compress_bound srcl =
     (if srcl \<le> 0 then 16
      else let k = 16 + 127 + 1;
               l2 = c_div srcl (k + 6)
           in cint (cint (cint (cint (c_div (cint (cint (cint (srcl - cint (l2 * 6)) + k) - 1)) k * 2)
                - l2) + srcl) + 16))"

definition lzav_compress_bound_hi :: "int \<Rightarrow> int" where
  "lzav_compress_bound_hi srcl =
     (if srcl \<le> 0 then 16
      else let l2 = c_div srcl (16 + 5)
           in cint (cint (cint (cint (c_div (cint (cint (srcl - cint (l2 * 5)) + 15)) 16 * 2)
                - l2) + srcl) + 16))"

subsection \<open>Memory\<close>

text \<open>
  A buffer is the list of its bytes. \<open>slice\<close> reads \<open>n\<close> bytes at an offset, \<open>store\<close>
  writes a run of bytes at an offset and leaves the length of the buffer alone (C leaves
  a write past the end of an object undefined; the model drops the bytes that do not
  fit). \<^verbatim>\<open>lzav_memcpy\<close> between two objects, the \<^verbatim>\<open>LZAV_MEMMOVE\<close> macro (a copy through a
  temporary) and \<^verbatim>\<open>lzav_memmove\<close> inside one object all give what reading the source
  first and writing then gives.
\<close>

definition byte_at :: "byte list \<Rightarrow> int \<Rightarrow> byte" where
  "byte_at xs p = xs ! nat p"

definition slice :: "byte list \<Rightarrow> int \<Rightarrow> int \<Rightarrow> byte list" where
  "slice xs p n = take (nat n) (drop (nat p) xs)"

definition store :: "byte list \<Rightarrow> int \<Rightarrow> byte list \<Rightarrow> byte list" where
  "store xs p bs = take (length xs) (take (nat p) xs @ bs @ drop (nat p + length bs) xs)"

definition lzav_memcpy :: "byte list \<Rightarrow> int \<Rightarrow> byte list \<Rightarrow> int \<Rightarrow> int \<Rightarrow> byte list" where
  \<comment> \<open>\<^verbatim>\<open>lzav_memcpy( d + dp, s + sp, n )\<close>, the result is the new \<open>d\<close>\<close>
  "lzav_memcpy d dp s sp n = store d dp (slice s sp n)"

definition lzav_memset :: "byte list \<Rightarrow> int \<Rightarrow> byte \<Rightarrow> int \<Rightarrow> byte list" where
  "lzav_memset d dp v n = store d dp (replicate (nat n) v)"

definition LZAV_MEMMOVE :: "byte list \<Rightarrow> int \<Rightarrow> int \<Rightarrow> int \<Rightarrow> byte list" where
  \<comment> \<open>\<^verbatim>\<open>{ uint8_t tmp[ c ]; lzav_memcpy( tmp, s, c ); lzav_memcpy( d, tmp, c ); }\<close>\<close>
  "LZAV_MEMMOVE buf dp sp c = store buf dp (slice buf sp c)"

definition lzav_memmove :: "byte list \<Rightarrow> int \<Rightarrow> int \<Rightarrow> int \<Rightarrow> byte list" where
  "lzav_memmove buf dp sp n = store buf dp (slice buf sp n)"

text \<open>
  A copy one byte at a time, lowest address first, inside one buffer:
  \<^verbatim>\<open>while( cc != 0 ) { *op = *ipd; ++ipd; ++op; --cc; }\<close>. A byte written is read again
  when the destination range starts inside the source range.
\<close>

fun copy_bytes :: "byte list \<Rightarrow> int \<Rightarrow> int \<Rightarrow> nat \<Rightarrow> byte list" where
  "copy_bytes buf op ipd cc =
     (if cc = 0 then buf
      else copy_bytes (store buf op [byte_at buf ipd]) (op + 1) (ipd + 1) (cc - 1))"

declare copy_bytes.simps [simp del]

text \<open>
  \<^verbatim>\<open>lzav_memcpy\<close> is written out in the header as a forward copy: fewer than 16 bytes go
  one by one; otherwise the bytes up to the next 8-byte boundary of the destination go
  one by one, then come words of eight bytes, each read whole and then written, then the
  bytes that remain. Between two objects the order does not show, and \<open>lzav_memcpy\<close>
  above gives the result. \<open>lzav_memcpy_fwd a buf dp sp n\<close> is the same copy with both
  ranges inside the one buffer \<open>buf\<close>, whose first byte has the address \<open>a\<close>.
\<close>

fun copy_words :: "byte list \<Rightarrow> int \<Rightarrow> int \<Rightarrow> nat \<Rightarrow> byte list" where
  "copy_words buf dp sp n =
     (if n = 0 then buf
      else copy_words (store buf dp (slice buf sp 8)) (dp + 8) (sp + 8) (n - 1))"

declare copy_words.simps [simp del]

definition lzav_memcpy_fwd :: "nat \<Rightarrow> byte list \<Rightarrow> int \<Rightarrow> int \<Rightarrow> int \<Rightarrow> byte list" where
  "lzav_memcpy_fwd a buf dp sp n =
     (if n < 16 then copy_bytes buf dp sp (nat n)
      else
        let head = (- (int a + dp)) mod 8;
            buf1 = copy_bytes buf dp sp (nat head);
            n1 = n - head;
            words = drop_bit 3 n1;
            buf2 = copy_words buf1 (dp + head) (sp + head) (nat words);
            k = head + 8 * words
        in copy_bytes buf2 (dp + k) (sp + k) (nat (n1 AND 7)))"

definition u8 :: "int \<Rightarrow> byte" where
  \<comment> \<open>the cast \<^verbatim>\<open>(uint8_t)\<close>\<close>
  "u8 x = word_of_int (x mod 256)"

definition rd16 :: "byte list \<Rightarrow> int \<Rightarrow> u16" where
  \<comment> \<open>a 16-bit little-endian load, \<^verbatim>\<open>lzav_memcpy( &v, p, 2 )\<close>\<close>
  "rd16 xs p = word_of_int (uint (byte_at xs p) + 256 * uint (byte_at xs (p + 1)))"

definition rd32 :: "byte list \<Rightarrow> int \<Rightarrow> u32" where
  \<comment> \<open>a 32-bit little-endian load, \<^verbatim>\<open>lzav_memcpy( &v, p, 4 )\<close>\<close>
  "rd32 xs p = word_of_int (uint (byte_at xs p) + 256 * uint (byte_at xs (p + 1))
                 + 65536 * uint (byte_at xs (p + 2)) + 16777216 * uint (byte_at xs (p + 3)))"

definition le32 :: "int \<Rightarrow> byte list" where
  \<comment> \<open>the four bytes of \<^verbatim>\<open>(uint32_t) x\<close>, lowest first\<close>
  "le32 x = [u8 x, u8 (x div 256), u8 (x div 65536), u8 (x div 16777216)]"

subsection \<open>Match lengths\<close>

text \<open>
  \<^verbatim>\<open>lzav_match_len\<close> on a 64-bit little-endian target: eight bytes at a time while at
  least eight remain, then four, then up to three single bytes. Comparing two words
  and counting the trailing zero bits of their difference in bytes is finding the first
  byte that differs, which is what \<open>same_run\<close> does. The end pointer is
  \<^verbatim>\<open>p1 + ml\<close>; with a length that wrapped below zero it lies before \<^verbatim>\<open>p1\<close>, no
  comparison is made and the wrapped length itself is returned. Both pointers point
  into the source buffer \<open>s\<close>.
\<close>

fun same_run :: "byte list \<Rightarrow> int \<Rightarrow> int \<Rightarrow> nat \<Rightarrow> int" where
  "same_run s p1 p2 n =
     (if n = 0 then 0
      else if byte_at s p1 \<noteq> byte_at s p2 then 0
      else 1 + same_run s (p1 + 1) (p2 + 1) (n - 1))"

declare same_run.simps [simp del]

definition match_len_tail :: "byte list \<Rightarrow> int \<Rightarrow> int \<Rightarrow> int \<Rightarrow> int \<Rightarrow> int \<Rightarrow> int" where
  \<comment> \<open>"At most 3 bytes left": \<open>k\<close> is \<^verbatim>\<open>p1 - p1s\<close>\<close>
  "match_len_tail s p1 p2 p1e ml k =
     (if p1 + k < p1e then
        if byte_at s (p1 + k) \<noteq> byte_at s (p2 + k) then k
        else if p1 + k + 1 < p1e then
          if byte_at s (p1 + k + 1) \<noteq> byte_at s (p2 + k + 1) then k + 1
          else if p1 + k + 2 < p1e then
            if byte_at s (p1 + k + 2) \<noteq> byte_at s (p2 + k + 2) then k + 2
            else ml
          else ml
        else ml
      else ml)"

definition match_len_w4 :: "byte list \<Rightarrow> int \<Rightarrow> int \<Rightarrow> int \<Rightarrow> int \<Rightarrow> int \<Rightarrow> int" where
  \<comment> \<open>"At most 7 bytes left": one 32-bit comparison\<close>
  "match_len_w4 s p1 p2 p1e ml k =
     (if p1 + k + 3 < p1e then
        let m = same_run s (p1 + k) (p2 + k) 4
        in if m < 4 then k + m else match_len_tail s p1 p2 p1e ml (k + 4)
      else match_len_tail s p1 p2 p1e ml k)"

function match_len_w8 :: "byte list \<Rightarrow> int \<Rightarrow> int \<Rightarrow> int \<Rightarrow> int \<Rightarrow> int \<Rightarrow> int" where
  "match_len_w8 s p1 p2 p1e ml k =
     (if p1 + k + 7 < p1e then
        let m = same_run s (p1 + k) (p2 + k) 8
        in if m < 8 then k + m else match_len_w8 s p1 p2 p1e ml (k + 8)
      else match_len_w4 s p1 p2 p1e ml k)"
  by pat_completeness auto
termination
  by (relation "measure (\<lambda>(s, p1, p2, p1e, ml, k). nat (p1e - (p1 + k)))") auto

declare match_len_w8.simps [simp del]

definition lzav_match_len :: "byte list \<Rightarrow> int \<Rightarrow> int \<Rightarrow> int \<Rightarrow> int" where
  "lzav_match_len s p1 p2 ml = match_len_w8 s p1 p2 (p1 + s64 ml) ml 0"

text \<open>
  \<^verbatim>\<open>lzav_match_len_r\<close>: the bytes before the two origins, two at a time. \<open>k\<close> is
  \<^verbatim>\<open>p1s - p1\<close>, the number of bytes passed so far.
\<close>

function match_len_r_w2 :: "byte list \<Rightarrow> int \<Rightarrow> int \<Rightarrow> int \<Rightarrow> int \<Rightarrow> int \<Rightarrow> int" where
  "match_len_r_w2 s p1s p2s p1e ml k =
     (if p1s - k > p1e then
        if byte_at s (p1s - k - 1) \<noteq> byte_at s (p2s - k - 1) then k
        else if byte_at s (p1s - k - 2) \<noteq> byte_at s (p2s - k - 2) then k + 1
        else match_len_r_w2 s p1s p2s p1e ml (k + 2)
      else if p1s - k > p1e - 1 \<and> byte_at s (p1s - k - 1) \<noteq> byte_at s (p2s - k - 1) then k
      else ml)"
  by pat_completeness auto
termination
  by (relation "measure (\<lambda>(s, p1s, p2s, p1e, ml, k). nat (p1s - k - p1e))") auto

declare match_len_r_w2.simps [simp del]

definition lzav_match_len_r :: "byte list \<Rightarrow> int \<Rightarrow> int \<Rightarrow> int \<Rightarrow> int" where
  "lzav_match_len_r s p1 p2 ml =
     (if ml = 0 then 0
      else if byte_at s (p1 - 1) \<noteq> byte_at s (p2 - 1) then 0
      else if ml \<noteq> 1 then match_len_r_w2 s p1 p2 (p1 - ml + 1) ml 1
      else ml)"

subsection \<open>Block writers (stream format 2)\<close>

text \<open>
  The length of a long literal run, seven bits per byte, lowest first, the high bit
  set on every byte but the last: the loop
  \<^verbatim>\<open>while( lcw > 127 ) { *op = (uint8_t) ( 0x80 | lcw ); lcw >>= 7; ++op; } *op = (uint8_t) lcw;\<close>
\<close>

function lzav_put_len :: "int \<Rightarrow> byte list" where
  "lzav_put_len lcw =
     (if lcw > 127 then u8 (128 OR lcw) # lzav_put_len (lcw div 128) else [u8 lcw])"
  by pat_completeness auto
termination
  by (relation "measure nat") auto

declare lzav_put_len.simps [simp del]

text \<open>
  \<^verbatim>\<open>lzav_write_blk_2\<close>. The arguments are the source \<open>s\<close> (the literals are read at
  \<open>ipa\<close>), the destination \<open>dst\<close> with the output offset \<open>op\<close>, the literal count \<open>lc\<close>,
  the reference length \<open>rc\<close> and offset \<open>d\<close>, the offset \<open>cbp\<close> of the block header that
  receives the carry bits, the carry shift \<open>csh\<close> and \<open>mref\<close>. The result is the new
  destination, the incremented output offset, and the new \<^verbatim>\<open>*cbpp\<close> and \<^verbatim>\<open>*cshp\<close>.
  The short literal runs are copied 8, 16 or 32 bytes wide, as in the C code; the bytes
  past the run are overwritten by what is written next.
\<close>

definition ocsh :: "int \<Rightarrow> int" where
  \<comment> \<open>\<^verbatim>\<open>static const int ocsh[ 4 ] = { 0, 0, 0, 3 };\<close>\<close>
  "ocsh bt = (if bt = 3 then 3 else 0)"

definition write_lit_2 :: "byte list \<Rightarrow> byte list \<Rightarrow> int \<Rightarrow> int \<Rightarrow> int \<Rightarrow> int \<Rightarrow> byte list \<times> int" where
  \<comment> \<open>"Write a literal block": \<open>cv\<close> is the carry value already shifted to bits 6 and 7\<close>
  "write_lit_2 s dst op lc cv ipa =
     (if lc < 9 then
        (lzav_memcpy (store dst op [u8 (cv OR lc)]) (op + 1) s ipa 8, op + 1 + lc)
      else if lc < 16 then
        (lzav_memcpy (store dst op [u8 (cv OR lc)]) (op + 1) s ipa 16, op + 1 + lc)
      else if lc < 16 + 128 then
        let dst1 = store dst op [u8 cv, u8 (lc - 16)];
            op1 = op + 2;
            dst2 = lzav_memcpy dst1 op1 s ipa 16;
            dst3 = lzav_memcpy dst2 (op1 + 16) s (ipa + 16) 16
        in if lc < 33 then (dst3, op1 + lc)
           else (lzav_memcpy dst3 (op1 + 32) s (ipa + 32) (lc - 32), op1 + lc)
      else
        let hdr = u8 cv # lzav_put_len (lc - 16);
            dst1 = store dst op hdr;
            op1 = op + int (length hdr)
        in (lzav_memcpy dst1 op1 s ipa lc, op1 + lc))"

definition lzav_write_blk_2 ::
  "byte list \<Rightarrow> byte list \<Rightarrow> int \<Rightarrow> int \<Rightarrow> int \<Rightarrow> int \<Rightarrow> int \<Rightarrow> int \<Rightarrow> int \<Rightarrow> int
     \<Rightarrow> byte list \<times> int \<times> int \<times> int" where
  "lzav_write_blk_2 s dst op lc rc d ipa cbp csh mref =
     (let rc1 = sz (rc + 1 - mref);
          dst0 = store dst cbp [byte_at dst cbp OR u8 (drop_bit (nat csh) (sz (push_bit 8 d)))];
          d0 = drop_bit (nat csh) d;
          (dst1, op1, d1) =
             (if lc \<noteq> 0 then
                let (dl, ol) = write_lit_2 s dst0 op lc (push_bit 6 (d0 AND 3)) ipa
                in (dl, ol, drop_bit 2 d0)
              else (dst0, op, d0));
          bt = 1 + (if d1 > 2 ^ 10 - 1 then 1 else 0) + (if d1 > 2 ^ 18 - 1 then 1 else 0)
      in if rc1 < 16 then
           let dst2 = store dst1 op1 (le32 (push_bit 6 d1 OR push_bit 4 bt OR rc1));
               op2 = op1 + bt
           in (dst2, op2 + 1, op2, ocsh bt)
         else
           let dst2 = store dst1 op1 (le32 (push_bit 6 d1 OR push_bit 4 bt));
               op2 = op1 + bt
           in if rc1 < 16 + 255 then
                (store dst2 (op2 + 1) [u8 (rc1 - 16)], op2 + 2, op2, ocsh bt)
              else
                (store dst2 (op2 + 1) [255, u8 (rc1 - 16 - 255)], op2 + 3, op2, ocsh bt))"

text \<open>\<^verbatim>\<open>lzav_write_fin_2\<close>: the finishing literal block; the result is the new destination
  and the incremented output offset.\<close>

definition lzav_write_fin_2 :: "byte list \<Rightarrow> byte list \<Rightarrow> int \<Rightarrow> int \<Rightarrow> int \<Rightarrow> byte list \<times> int" where
  "lzav_write_fin_2 s dst op lc ipa =
     (let hdr = (if lc < 16 then [u8 lc] else 0 # lzav_put_len (lc - 16));
          dst1 = store dst op hdr;
          op1 = op + int (length hdr)
      in (lzav_memcpy dst1 op1 s ipa lc, op1 + lc))"

subsection \<open>Undefined behaviour as a value\<close>

text \<open>
  What C leaves undefined and the code can reach is a value of the model, so that a
  call that dereferences a null pointer is not mistaken for a call that returns.
\<close>

datatype fault =
    Null_deref      \<comment> \<open>a read or write through a null pointer\<close>
  | Read_oob        \<comment> \<open>a read past the end of the source object\<close>
  | Table_overrun   \<comment> \<open>the hash table is larger than the memory it is placed in\<close>
  | No_return       \<comment> \<open>a loop that does not end\<close>

subsection \<open>The tiny-data path of the default compressor\<close>

text \<open>
  \<^verbatim>\<open>lzav_tiny_compress\<close>. A buffer argument is its address and the bytes of its object:
  \<open>src\<close>, \<open>s\<close> and \<open>dst\<close>, \<open>d\<close>. The function tests the lengths only; it writes the
  prefix byte and the length byte through \<open>dst\<close> and copies \<open>srcl\<close> bytes from \<open>src\<close>
  whatever the two pointers are. With \<open>src\<close> equal to \<open>dst\<close> the source is the
  destination object itself, two bytes behind the bytes written, and the copy reads
  what it has written. The result is the returned \<^verbatim>\<open>int\<close> and the destination object
  after the call.
\<close>

definition lzav_tiny_compress ::
  "nat \<Rightarrow> byte list \<Rightarrow> nat \<Rightarrow> byte list \<Rightarrow> int \<Rightarrow> int \<Rightarrow> fault + (int \<times> byte list)" where
  "lzav_tiny_compress src s dst d srcl dstl =
     (if srcl \<le> 0 \<or> srcl > LZAV_TINY_MAX \<or> dstl < srcl + 2 then Inr (0, d)
      else if dst = 0 then Inl Null_deref
      else
        let d1 = store d 0 [u8 (push_bit 4 LZAV_FMT_CUR OR LZAV_REF_MIN)];
            d2 = store d1 1 [u8 srcl]
        in if src = 0 then Inl Null_deref
           else if src = dst then
             if int (length d) < srcl then Inl Read_oob
             else Inr (srcl + 2, lzav_memcpy_fwd dst d2 2 0 srcl)
           else if int (length s) < srcl then Inl Read_oob
           else Inr (srcl + 2, lzav_memcpy d2 2 s 0 srcl))"

subsection \<open>The default compressor\<close>

text \<open>
  The state of the main loop of \<^verbatim>\<open>lzav_compress\<close>: the C locals that change, the hash
  table and the destination. The hash table is an array of 32-bit words, indexed by
  word (\<^verbatim>\<open>hp[ i ]\<close> is the word at byte offset \<^verbatim>\<open>hval & hmask\<close> plus \<open>4 * i\<close>); where it
  lives (stack, heap or the external buffer) does not change what it holds.
\<close>

record cstate =
  c_ip :: int    \<comment> \<open>source pointer\<close>
  c_ipa :: int   \<comment> \<open>literals anchor pointer\<close>
  c_op :: int    \<comment> \<open>destination pointer\<close>
  c_cbp :: int   \<comment> \<open>pointer to the latest offset carry block header\<close>
  c_csh :: int   \<comment> \<open>offset carry shift\<close>
  c_mavg :: int  \<comment> \<open>running average of hash match rate\<close>
  c_rndb :: u32  \<comment> \<open>PRNG bit derived from the non-matching offset\<close>
  c_ht :: "nat \<Rightarrow> u32"
  c_dst :: "byte list"

definition lzav_hash :: "u32 \<Rightarrow> u32 \<Rightarrow> u32" where
  \<comment> \<open>\<^verbatim>\<open>hm = (uint64_t) Seed1 * (uint32_t) ( 0x85A308D3 ^ iw2 ); hval = (uint32_t) hm ^ (uint32_t) ( hm >> 32 )\<close>\<close>
  "lzav_hash iw1 iw2 =
     (let hm = (ucast (0x243F6A88 XOR iw1) :: u64) * ucast (0x85A308D3 XOR iw2)
      in ucast hm XOR ucast (drop_bit 32 hm))"

definition hash_slot :: "u32 \<Rightarrow> int \<Rightarrow> nat" where
  \<comment> \<open>the word index of \<^verbatim>\<open>hp = (uint32_t*) ( ht + ( hval & hmask ))\<close>\<close>
  "hash_slot hval hmask = nat ((uint hval AND hmask) div 4)"

text \<open>
  "Find source data in hash-table tuples": the window offset of the tuple that matches
  the six bytes at \<open>ip\<close>, tuple 1 tried first, or \<open>None\<close> for \<^verbatim>\<open>goto _no_match\<close>.
\<close>

definition find_tuple :: "byte list \<Rightarrow> (nat \<Rightarrow> u32) \<Rightarrow> nat \<Rightarrow> u32 \<Rightarrow> u16 \<Rightarrow> int option" where
  "find_tuple s ht hp iw1 iw2 =
     (if iw1 \<noteq> ht hp then
        if iw1 \<noteq> ht (hp + 2) then None
        else let wp = uint (ht (hp + 3))
             in if iw2 \<noteq> rd16 s (wp + 4) then None else Some wp
      else
        let wp = uint (ht (hp + 1))
        in if iw2 \<noteq> rd16 s (wp + 4) then
             if iw1 \<noteq> ht (hp + 2) then None
             else let wp2 = uint (ht (hp + 3))
                  in if iw2 \<noteq> rd16 s (wp2 + 4) then None else Some wp2
           else Some wp)"

text \<open>\<^verbatim>\<open>_no_match\<close>: the second tuple is replaced, the average decays, and the input
  pointer skips ahead through data that has not matched for a while.\<close>

definition compress_no_match :: "nat \<Rightarrow> u32 \<Rightarrow> cstate \<Rightarrow> cstate" where
  "compress_no_match hp iw1 st =
     (let ip = c_ip st;
          ipo = ip mod 2 ^ 32;
          ht1 = (c_ht st)(hp + 2 := iw1, hp + 3 := word_of_int ipo);
          mavg = c_mavg st - drop_bit 11 (c_mavg st);
          (ip1, rndb1) =
             (if mavg < push_bit 14 200 \<and> ip \<noteq> c_ipa st then
                let ip2 = ip + 1 + uint (c_rndb st);
                    ip3 = (if mavg < push_bit 14 130 then
                             let ip4 = ip2 + 1
                             in if mavg < push_bit 14 100 then ip4 + (100 - drop_bit 14 mavg)
                                else ip4
                           else ip2)
                in (ip3, word_of_int (ipo AND 1))
              else (ip, c_rndb st))
      in st\<lparr>c_ip := ip1 + 1, c_mavg := mavg, c_rndb := rndb1, c_ht := ht1\<rparr>)"

text \<open>\<^verbatim>\<open>_d_oob\<close>, the dead offset: the input pointer advances by one and nothing is
  written to the destination; a tuple whose offset has left the window is refreshed.\<close>

definition compress_d_oob :: "nat \<Rightarrow> u32 \<Rightarrow> int \<Rightarrow> cstate \<Rightarrow> cstate" where
  "compress_d_oob hp iw1 d st =
     (let ip = c_ip st;
          ipo = ip mod 2 ^ 32
      in if d < LZAV_WIN_LEN then st\<lparr>c_ip := ip + 1\<rparr>
         else st\<lparr>c_ip := ip + 1,
                 c_ht := (c_ht st)(hp + 1 + (if iw1 \<noteq> c_ht st hp then 1 else 0) * 2 := word_of_int ipo)\<rparr>)"

text \<open>"Source data and hash-table entry match": the reference is extended forwards
  and, over the pending literals, backwards, and the block pair is written.\<close>

definition match_cap :: "int \<Rightarrow> int \<Rightarrow> int \<Rightarrow> int" where
  \<comment> \<open>\<^verbatim>\<open>ml\<close>: the offset bounds the length (no overlap), and \<^verbatim>\<open>LZAV_LIT_FIN\<close> literals remain\<close>
  "match_cap ipe ip d =
     (let ml = (if d > LZAV_REF_LEN then LZAV_REF_LEN else d)
      in if ip + ml > ipe then sz (ipe - ip) else ml)"

definition match_extend :: "byte list \<Rightarrow> int \<Rightarrow> int \<Rightarrow> int \<Rightarrow> int \<Rightarrow> int \<Rightarrow> int \<times> int \<times> int" where
  \<comment> \<open>the reference length \<^verbatim>\<open>rc\<close>, the source pointer \<^verbatim>\<open>ip\<close> and the literal count \<^verbatim>\<open>lc\<close>
      after the forward and the backward extension\<close>
  "match_extend s ipe ip ipa wp d =
     (let ml = match_cap ipe ip d;
          rc = sz (LZAV_REF_MIN
                 + lzav_match_len s (ip + LZAV_REF_MIN) (wp + LZAV_REF_MIN) (sz (ml - LZAV_REF_MIN)));
          lc = sz (ip - ipa)
      in if lc \<noteq> 0 then
           let ml1 = sz (ml - rc);
               bmc0 = (if lc > 16 then 16 else lc);
               ml2 = (if ml1 > bmc0 then bmc0 else ml1);
               bmc = lzav_match_len_r s ip wp ml2
           in if bmc \<noteq> 0 then (sz (rc + bmc), ip - s64 bmc, sz (lc - bmc))
              else (rc, ip, lc)
         else (rc, ip, lc))"

definition compress_match :: "byte list \<Rightarrow> int \<Rightarrow> nat \<Rightarrow> u32 \<Rightarrow> int \<Rightarrow> int \<Rightarrow> cstate \<Rightarrow> cstate" where
  "compress_match s ipe hp iw1 wp d st =
     (let ip = c_ip st;
          ipo = ip mod 2 ^ 32;
          hw1 = c_ht st hp;
          ht1 = (if d > 273 then
                   if iw1 = hw1 then (c_ht st)(hp + 1 := word_of_int ipo)
                   else (c_ht st)(hp + 2 := hw1, hp + 3 := c_ht st (hp + 1),
                                  hp := iw1, hp + 1 := word_of_int ipo)
                 else c_ht st);
          (rc, ip1, lc) = match_extend s ipe ip (c_ipa st) wp d;
          (dst1, op1, cbp1, csh1) =
             lzav_write_blk_2 s (c_dst st) (c_op st) lc rc d (c_ipa st) (c_cbp st) (c_csh st)
               LZAV_REF_MIN;
          ip2 = ip1 + s64 rc
      in st\<lparr>c_ip := ip2, c_ipa := ip2, c_op := op1, c_cbp := cbp1, c_csh := csh1,
              c_mavg := c_mavg st + drop_bit 10 (sz (push_bit 21 rc) - c_mavg st),
              c_ht := ht1, c_dst := dst1\<rparr>)"

text \<open>
  One round of \<^verbatim>\<open>while( LZAV_LIKELY( ip < ipet ))\<close>: the six bytes at \<open>ip\<close> are hashed,
  the slot is searched, and the round ends in \<^verbatim>\<open>_no_match\<close>, in \<^verbatim>\<open>_d_oob\<close> or with
  a block pair. \<open>match_distance\<close> is \<^verbatim>\<open>d = ip - wp\<close>, a \<^verbatim>\<open>size_t\<close>.
\<close>

definition match_distance :: "int \<Rightarrow> int \<Rightarrow> int" where
  "match_distance ip wp = sz (ip - wp)"

definition compress_candidate :: "byte list \<Rightarrow> int \<Rightarrow> cstate \<Rightarrow> int option" where
  \<comment> \<open>the window offset of the hash-table match at the current position, if there is one\<close>
  "compress_candidate s hmask st =
     (let iw1 = rd32 s (c_ip st);
          iw2 = rd16 s (c_ip st + 4)
      in find_tuple s (c_ht st) (hash_slot (lzav_hash iw1 (ucast iw2)) hmask) iw1 iw2)"

definition lzav_compress_round :: "byte list \<Rightarrow> int \<Rightarrow> int \<Rightarrow> cstate \<Rightarrow> cstate" where
  "lzav_compress_round s ipe hmask st =
     (let iw1 = rd32 s (c_ip st);
          iw2 = rd16 s (c_ip st + 4);
          hp = hash_slot (lzav_hash iw1 (ucast iw2)) hmask
      in case find_tuple s (c_ht st) hp iw1 iw2 of
           None \<Rightarrow> compress_no_match hp iw1 st
         | Some wp \<Rightarrow>
             let d = match_distance (c_ip st) wp
             in if d < 8 \<or> d > LZAV_WIN_LEN - 1 then compress_d_oob hp iw1 d st
                else compress_match s ipe hp iw1 wp d st)"

text \<open>
  The main loop ends: every round moves the source pointer forwards, by one at a dead
  offset, by one or more without a match, and by the forward match length (at least
  \<^verbatim>\<open>LZAV_REF_MIN\<close>) with a block pair, since the backward extension is given back by
  \<^verbatim>\<open>ip += rc\<close>. The lemmas below bound the match lengths to show it.
\<close>

lemma sz_id: "0 \<le> x \<Longrightarrow> x < 2 ^ 64 \<Longrightarrow> sz x = x"
  by (simp add: sz_def)

lemma s64_id: "- (2 ^ 63) \<le> x \<Longrightarrow> x < 2 ^ 63 \<Longrightarrow> s64 x = x"
  unfolding s64_def by (simp add: signed_take_bit_int_eq_self)

lemma same_run_bounds: "0 \<le> same_run s p1 p2 n \<and> same_run s p1 p2 n \<le> int n"
proof (induction n arbitrary: p1 p2)
  case 0
  then show ?case by (simp add: same_run.simps [of s p1 p2 0])
next
  case (Suc n)
  from Suc [of "p1 + 1" "p2 + 1"] show ?case
    by (simp add: same_run.simps [of s p1 p2 "Suc n"])
qed

lemma match_len_tail_bounds:
  assumes "k \<le> ml"
  shows "k \<le> match_len_tail s p1 p2 (p1 + ml) ml k \<and> match_len_tail s p1 p2 (p1 + ml) ml k \<le> ml"
  using assms by (auto simp: match_len_tail_def)

lemma match_len_w4_bounds:
  assumes "k \<le> ml"
  shows "k \<le> match_len_w4 s p1 p2 (p1 + ml) ml k \<and> match_len_w4 s p1 p2 (p1 + ml) ml k \<le> ml"
proof -
  have t: "k + 3 < ml \<Longrightarrow> k + 4 \<le> match_len_tail s p1 p2 (p1 + ml) ml (k + 4)
           \<and> match_len_tail s p1 p2 (p1 + ml) ml (k + 4) \<le> ml"
    by (rule match_len_tail_bounds) simp
  show ?thesis
    using assms same_run_bounds [of s "p1 + k" "p2 + k" 4] match_len_tail_bounds [OF assms, of s p1 p2] t
    by (auto simp: match_len_w4_def Let_def)
qed

lemma match_len_w8_bounds:
  "k \<le> ml \<Longrightarrow> k \<le> match_len_w8 s p1 p2 (p1 + ml) ml k \<and> match_len_w8 s p1 p2 (p1 + ml) ml k \<le> ml"
proof (induction s p1 p2 "p1 + ml" ml k rule: match_len_w8.induct)
  case (1 s p1 p2 ml k)
  note unf = match_len_w8.simps [of s p1 p2 "p1 + ml" ml k]
  show ?case
  proof (cases "p1 + k + 7 < p1 + ml")
    case False
    then show ?thesis
      using match_len_w4_bounds [OF "1.prems", of s p1 p2] by (simp add: unf)
  next
    case True
    show ?thesis
    proof (cases "same_run s (p1 + k) (p2 + k) 8 < 8")
      case lt: True
      then show ?thesis
        using True same_run_bounds [of s "p1 + k" "p2 + k" 8] by (simp add: unf Let_def)
    next
      case ge: False
      have "k + 8 \<le> ml" using True by simp
      from "1.hyps" [OF True refl ge this] True ge show ?thesis
        by (simp add: unf Let_def)
    qed
  qed
qed

lemma lzav_match_len_bounds:
  assumes "0 \<le> ml" "ml < 2 ^ 63"
  shows "0 \<le> lzav_match_len s p1 p2 ml \<and> lzav_match_len s p1 p2 ml \<le> ml"
  using match_len_w8_bounds [of 0 ml s p1 p2] assms
  by (simp add: lzav_match_len_def s64_id)

lemma match_len_r_w2_bounds:
  "k \<le> ml \<Longrightarrow> k \<le> match_len_r_w2 s p1 p2 (p1 - ml + 1) ml k
     \<and> match_len_r_w2 s p1 p2 (p1 - ml + 1) ml k \<le> ml"
proof (induction s p1 p2 "p1 - ml + 1" ml k rule: match_len_r_w2.induct)
  case (1 s p1s p2s ml k)
  note unf = match_len_r_w2.simps [of s p1s p2s "p1s - ml + 1" ml k]
  show ?case
  proof (cases "p1s - k > p1s - ml + 1 \<and> byte_at s (p1s - k - 1) = byte_at s (p2s - k - 1)
                 \<and> byte_at s (p1s - k - 2) = byte_at s (p2s - k - 2)")
    case True
    then have a: "p1s - ml + 1 < p1s - k"
      and b: "\<not> byte_at s (p1s - k - 1) \<noteq> byte_at s (p2s - k - 1)"
      and c: "\<not> byte_at s (p1s - k - 2) \<noteq> byte_at s (p2s - k - 2)"
      and d: "k + 2 \<le> ml" by simp_all
    from "1.hyps" [OF a b c d] True show ?thesis
      by (simp add: unf)
  next
    case False
    then show ?thesis using "1.prems"
      by (auto simp: unf)
  qed
qed

lemma lzav_match_len_r_bounds:
  assumes "0 \<le> ml"
  shows "0 \<le> lzav_match_len_r s p1 p2 ml \<and> lzav_match_len_r s p1 p2 ml \<le> ml"
proof (cases "ml = 0 \<or> ml = 1")
  case True
  then show ?thesis by (auto simp: lzav_match_len_r_def)
next
  case False
  then have "1 \<le> ml" using assms by simp
  from match_len_r_w2_bounds [OF this, of s p1 p2] False assms show ?thesis
    by (auto simp: lzav_match_len_r_def)
qed


lemma match_cap_bounds:
  assumes "ip < ipe - 9" "8 \<le> d"
  shows "8 \<le> match_cap ipe ip d \<and> match_cap ipe ip d \<le> 530"
  using assms by (auto simp: match_cap_def LZAV_REF_LEN_def LZAV_REF_MIN_def Let_def sz_def)

lemma match_extend_progress:
  assumes "ip < ipe - 9" "8 \<le> d"
    and e: "match_extend s ipe ip ipa wp d = (rc, ip1, lc)"
  shows "ip + 6 \<le> ip1 + s64 rc"
proof -
  define ml where "ml = match_cap ipe ip d"
  define fw where "fw = lzav_match_len s (ip + 6) (wp + 6) (ml - 6)"
  define lc0 where "lc0 = sz (ip - ipa)"
  define ml2 where "ml2 = (if ml - (6 + fw) > (if lc0 > 16 then 16 else lc0)
                           then (if lc0 > 16 then 16 else lc0) else ml - (6 + fw))"
  define bmc where "bmc = lzav_match_len_r s ip wp ml2"
  have ml: "8 \<le> ml" "ml \<le> 530"
    using match_cap_bounds [OF assms(1,2)] by (simp_all add: ml_def)
  have fw: "0 \<le> fw" "fw \<le> ml - 6"
    using lzav_match_len_bounds [of "ml - 6" s "ip + 6" "wp + 6"] ml by (simp_all add: fw_def)
  have lc0: "0 \<le> lc0" by (simp add: lc0_def sz_def)
  have ml2: "0 \<le> ml2" "ml2 \<le> 16" using fw lc0 by (auto simp: ml2_def)
  have bmc: "0 \<le> bmc" "bmc \<le> ml2"
    using lzav_match_len_r_bounds [OF ml2(1), of s ip wp] by (simp_all add: bmc_def)
  have s1: "sz (ml - 6) = ml - 6" using ml by (intro sz_id) simp_all
  have s2: "sz (6 + fw) = 6 + fw" using ml fw by (intro sz_id) simp_all
  have s3: "sz (ml - (6 + fw)) = ml - (6 + fw)" using ml fw by (intro sz_id) simp_all
  have s4: "sz (6 + fw + bmc) = 6 + fw + bmc" using ml fw bmc ml2 by (intro sz_id) simp_all
  have s5: "s64 bmc = bmc" using bmc ml2 by (intro s64_id) simp_all
  have s6: "s64 (6 + fw + bmc) = 6 + fw + bmc" using ml fw bmc ml2 by (intro s64_id) simp_all
  have s7: "s64 (6 + fw) = 6 + fw" using ml fw by (intro s64_id) simp_all
  have "match_extend s ipe ip ipa wp d =
      (if lc0 \<noteq> 0 \<and> bmc \<noteq> 0 then (6 + fw + bmc, ip - bmc, sz (lc0 - bmc)) else (6 + fw, ip, lc0))"
    unfolding match_extend_def LZAV_REF_MIN_def Let_def ml_def [symmetric] s1 fw_def [symmetric] s2 s3
      lc0_def [symmetric] ml2_def [symmetric] bmc_def [symmetric] s4 s5
    by simp
  with e have "(rc = 6 + fw + bmc \<and> ip1 = ip - bmc) \<or> (rc = 6 + fw \<and> ip1 = ip)"
    by (auto split: if_splits)
  then show ?thesis using s6 s7 fw by auto
qed

lemma compress_match_progress:
  assumes "c_ip st < ipe - 9" "8 \<le> d"
  shows "c_ip st + 6 \<le> c_ip (compress_match s ipe hp iw1 wp d st)"
proof -
  obtain rc ip1 lc where e: "match_extend s ipe (c_ip st) (c_ipa st) wp d = (rc, ip1, lc)"
    by (cases "match_extend s ipe (c_ip st) (c_ipa st) wp d") auto
  from match_extend_progress [OF assms e] show ?thesis
    by (simp add: compress_match_def Let_def e split: prod.splits)
qed

lemma compress_no_match_progress: "c_ip st < c_ip (compress_no_match hp iw1 st)"
proof -
  define m where "m = c_mavg st - drop_bit 11 (c_mavg st)"
  define rn where "rn = uint (c_rndb st)"
  have r: "0 \<le> rn" by (simp add: rn_def)
  have k: "m < push_bit 14 100 \<Longrightarrow> 0 < 100 - drop_bit 14 m"
    by (simp add: drop_bit_eq_div push_bit_eq_mult)
  show ?thesis
    using r k
    by (auto simp: compress_no_match_def Let_def m_def [symmetric] rn_def [symmetric]
        split: if_splits)
qed

lemma compress_round_progress:
  assumes "c_ip st < ipe - 9"
  shows "c_ip st < c_ip (lzav_compress_round s ipe hmask st)"
proof -
  define iw1 where "iw1 = rd32 s (c_ip st)"
  define iw2 where "iw2 = rd16 s (c_ip st + 4)"
  define hp where "hp = hash_slot (lzav_hash iw1 (ucast iw2)) hmask"
  show ?thesis
  proof (cases "find_tuple s (c_ht st) hp iw1 iw2")
    case None
    then show ?thesis
      using compress_no_match_progress [of st hp iw1]
      by (simp add: lzav_compress_round_def Let_def iw1_def iw2_def hp_def)
  next
    case (Some wp)
    show ?thesis
    proof (cases "match_distance (c_ip st) wp < 8 \<or> match_distance (c_ip st) wp > LZAV_WIN_LEN - 1")
      case True
      then show ?thesis
        using Some
        by (auto simp: lzav_compress_round_def Let_def iw1_def iw2_def hp_def compress_d_oob_def)
    next
      case False
      then have "8 \<le> match_distance (c_ip st) wp" by simp
      from compress_match_progress [OF assms this, of s hp iw1 wp] False Some show ?thesis
        by (simp add: lzav_compress_round_def Let_def iw1_def iw2_def hp_def)
    qed
  qed
qed

function lzav_compress_loop :: "byte list \<Rightarrow> int \<Rightarrow> int \<Rightarrow> cstate \<Rightarrow> cstate" where
  \<comment> \<open>\<^verbatim>\<open>while( LZAV_LIKELY( ip < ipet ))\<close> with \<^verbatim>\<open>ipet = ipe - 9\<close>\<close>
  "lzav_compress_loop s ipe hmask st =
     (if c_ip st < ipe - 9 then lzav_compress_loop s ipe hmask (lzav_compress_round s ipe hmask st)
      else st)"
  by pat_completeness auto
termination
proof (relation "measure (\<lambda>(s, ipe, hmask, st). nat (ipe - 9 - c_ip st))")
  show "wf (measure (\<lambda>(s, ipe, hmask, st). nat (ipe - 9 - c_ip st)))" by simp
next
  fix s :: "byte list" and ipe hmask :: int and st :: cstate
  assume "c_ip st < ipe - 9"
  from compress_round_progress [OF this, of s hmask] this
  show "((s, ipe, hmask, lzav_compress_round s ipe hmask st), (s, ipe, hmask, st))
          \<in> measure (\<lambda>(s, ipe, hmask, st). nat (ipe - 9 - c_ip st))"
    by simp
qed

declare lzav_compress_loop.simps [simp del]

text \<open>
  The size of the hash table. The two doubling loops of the C code are partial: from a
  size of 0 neither would end. They start from 512 or 2048.
\<close>

partial_function (option) htsize_grow :: "int \<Rightarrow> int \<Rightarrow> int \<Rightarrow> int option" where
  \<comment> \<open>\<^verbatim>\<open>while( htsize != ( 1 << 20 ) && ( htsize >> 2 ) < (size_t) srcl ) htsize <<= 1;\<close>
      with the largest size \<open>hmax\<close> for \<^verbatim>\<open>1 << 20\<close>\<close>
  "htsize_grow hmax srcl htsize =
     (if htsize \<noteq> hmax \<and> drop_bit 2 htsize < srcl
      then htsize_grow hmax srcl (sz (push_bit 1 htsize))
      else Some htsize)"

declare htsize_grow.simps [code]

partial_function (option) htsize_grow_ext :: "int \<Rightarrow> int \<Rightarrow> int \<Rightarrow> int option" where
  \<comment> \<open>the loop of the external-buffer branch, which stops at the capacity \<open>htsizem\<close>\<close>
  "htsize_grow_ext srcl htsizem htsize =
     (if drop_bit 2 htsize < srcl then
        let htsize2 = sz (push_bit 1 htsize)
        in if htsize2 > htsizem then Some htsize else htsize_grow_ext srcl htsizem htsize2
      else Some htsize)"

declare htsize_grow_ext.simps [code]

definition stack_buf_size :: int where
  \<comment> \<open>\<^verbatim>\<open>sizeof( stack_buf )\<close> for \<^verbatim>\<open>uint32_t stack_buf[ 4096 ]\<close>\<close>
  "stack_buf_size = 4096 * 4"

definition init_table :: "u32 \<Rightarrow> u32 \<Rightarrow> nat \<Rightarrow> u32" where
  \<comment> \<open>every tuple of the table set to \<^verbatim>\<open>initv\<close>\<close>
  "init_table v0 v1 = (\<lambda>i. if even i then v0 else v1)"

text \<open>
  \<^verbatim>\<open>lzav_compress\<close>. \<open>alloc n\<close> says whether \<^verbatim>\<open>malloc( n )\<close> succeeds. The branch for
  \<^verbatim>\<open>srcl < 16\<close> is kept although the tiny-data path above it takes every such length.
\<close>

definition compress_main ::
  "byte list \<Rightarrow> byte list \<Rightarrow> int \<Rightarrow> int \<Rightarrow> fault + (int \<times> byte list)" where
  \<comment> \<open>from \<^verbatim>\<open>const uint32_t hmask = ...\<close> to the end of \<^verbatim>\<open>lzav_compress\<close>; \<open>d1\<close> holds the prefix byte\<close>
  "compress_main s d1 srcl htsize =
     (let hmask = (htsize - 1) XOR 15;
          ipe = srcl - LZAV_LIT_FIN;
          ipet = ipe - 9;
          ip = 16;
          initv0 = (if ip < ipet then rd32 s ip else 0);
          st0 = \<lparr>c_ip = ip, c_ipa = 0, c_op = 1, c_cbp = 1, c_csh = 0,
                 c_mavg = push_bit 21 100, c_rndb = 0,
                 c_ht = init_table initv0 16, c_dst = d1\<rparr>;
          st = lzav_compress_loop s ipe hmask st0;
          (d2, op) = lzav_write_fin_2 s (c_dst st) (c_op st) (sz (ipe - c_ipa st + LZAV_LIT_FIN))
                       (c_ipa st)
      in Inr (cint op, d2))"

definition lzav_compress ::
  "nat \<Rightarrow> byte list \<Rightarrow> nat \<Rightarrow> byte list \<Rightarrow> int \<Rightarrow> int \<Rightarrow> nat \<Rightarrow> int \<Rightarrow> (int \<Rightarrow> bool)
     \<Rightarrow> fault + (int \<times> byte list)" where
  "lzav_compress src s dst d srcl dstl ext_buf ext_bufl alloc =
     (if srcl \<le> LZAV_TINY_MAX then lzav_tiny_compress src s dst d srcl dstl
      else if srcl \<le> 0 \<or> src = 0 \<or> dst = 0 \<or> src = dst \<or> dstl < lzav_compress_bound srcl
      then Inr (0, d)
      else
        let d1 = store d 0 [u8 (push_bit 4 LZAV_FMT_CUR OR LZAV_REF_MIN)]
        in if srcl < 16 then
             let d2 = store d1 1 [u8 srcl];
                 d3 = (if srcl > 0 then lzav_memcpy d2 2 s 0 srcl else d2)
             in if srcl > LZAV_LIT_FIN - 1 then Inr (2 + srcl, d3)
                else Inr (2 + LZAV_LIT_FIN, lzav_memset d3 (2 + srcl) 0 (LZAV_LIT_FIN - srcl))
           else
             case (if srcl \<le> LZAV_SMALL_MAX then Some LZAV_MIN_HTABLE
                   else htsize_grow (2 ^ 20) srcl (2 ^ 7 * 4 * 4)) of
               None \<Rightarrow> Inl No_return
             | Some htsize0 \<Rightarrow>
                 if ext_buf = 0 then
                   case htsize_grow (2 ^ 20) srcl htsize0 of
                     None \<Rightarrow> Inl No_return
                   | Some htsize \<Rightarrow>
                       if htsize > stack_buf_size \<and> \<not> alloc htsize then Inr (0, d1)
                       else compress_main s d1 srcl htsize
                 else
                   let htsizem = (if ext_bufl > stack_buf_size then ext_bufl else stack_buf_size)
                   in case htsize_grow_ext srcl htsizem htsize0 of
                        None \<Rightarrow> Inl No_return
                      | Some htsize \<Rightarrow>
                          if htsize > htsizem then Inl Table_overrun
                          else compress_main s d1 srcl htsize)"

definition lzav_compress_default ::
  "nat \<Rightarrow> byte list \<Rightarrow> nat \<Rightarrow> byte list \<Rightarrow> int \<Rightarrow> int \<Rightarrow> (int \<Rightarrow> bool)
     \<Rightarrow> fault + (int \<times> byte list)" where
  "lzav_compress_default src s dst d srcl dstl alloc = lzav_compress src s dst d srcl dstl 0 0 alloc"

subsection \<open>The higher-ratio compressor\<close>

text \<open>
  The state of the main loop of \<^verbatim>\<open>lzav_compress_hi\<close>. A slot of the hash table holds
  seven tuples and, in its last word \<^verbatim>\<open>hp[ 15 ]\<close>, the offset of the head tuple.
\<close>

record hstate =
  h_ip :: int    \<comment> \<open>source pointer\<close>
  h_ipa :: int   \<comment> \<open>literals anchor pointer\<close>
  h_op :: int    \<comment> \<open>destination pointer\<close>
  h_cbp :: int   \<comment> \<open>pointer to the latest offset carry block header\<close>
  h_csh :: int   \<comment> \<open>offset carry shift\<close>
  h_prc :: int   \<comment> \<open>length of a previously found match\<close>
  h_pd :: int    \<comment> \<open>distance of a previously found match\<close>
  h_pip :: int   \<comment> \<open>source pointer of a previously found match\<close>
  h_ht :: "nat \<Rightarrow> u32"
  h_dst :: "byte list"

definition hi_mref :: int where
  "hi_mref = 5"

definition hi_mlen :: int where
  "hi_mlen = LZAV_REF_LEN - LZAV_REF_MIN + hi_mref"

definition lzav_hash_hi :: "u32 \<Rightarrow> byte \<Rightarrow> u32" where
  \<comment> \<open>\<^verbatim>\<open>hm = (uint64_t) ( 0x243F6A88 ^ iw1 ) * (uint32_t) ( 0x85A308D3 ^ ip[ 4 ])\<close>\<close>
  "lzav_hash_hi iw1 b = lzav_hash iw1 (ucast b)"

text \<open>
  One pass of \<^verbatim>\<open>for( i1 = 0; i1 < 7; ++i1 )\<close> over the tuples of a slot. The loop state
  is the tuple offset \<open>ti\<close>, the best window pointer \<open>wp\<close>, the best length \<open>rc\<close>, and
  \<open>d\<close>, which every pass assigns: after the loop it is the offset of the tuple looked
  at last, whichever tuple gave the best match. \<open>opt\<close> selects the first of the two
  loops of the C code ("Optimized match-finding"), which does not cap the length at
  the end of the source.
\<close>

definition hi_probe ::
  "byte list \<Rightarrow> int \<Rightarrow> bool \<Rightarrow> int \<Rightarrow> u32 \<Rightarrow> (nat \<Rightarrow> u32) \<Rightarrow> nat
     \<Rightarrow> int \<times> int \<times> int \<times> int \<Rightarrow> int \<times> int \<times> int \<times> int" where
  "hi_probe s ipe opt ip iw1 ht hp = (\<lambda>(ti, wp, rc, d_old).
     let ww1 = ht (hp + nat ti);
         wp0 = uint (ht (hp + nat ti + 1));
         d = sz (ip - wp0);
         ti1 = (if ti = 12 then 0 else ti + 2)
     in if iw1 = ww1 then
          let ml0 = (if d > hi_mlen then hi_mlen else d);
              ml = (if opt then ml0 else if ip + ml0 > ipe then sz (ipe - ip) else ml0);
              rc0 = sz (4 + lzav_match_len s (ip + 4) (wp0 + 4) (sz (ml - 4)))
          in if rc0 > rc + (if d > 2 ^ 18 then 1 else 0) then (ti1, wp0, rc0, d)
             else (ti1, wp, rc, d)
        else (ti1, wp, rc, d))"

function hi_scan ::
  "byte list \<Rightarrow> int \<Rightarrow> bool \<Rightarrow> int \<Rightarrow> u32 \<Rightarrow> (nat \<Rightarrow> u32) \<Rightarrow> nat \<Rightarrow> nat
     \<Rightarrow> int \<times> int \<times> int \<times> int \<Rightarrow> int \<times> int \<times> int \<times> int" where
  "hi_scan s ipe opt ip iw1 ht hp i1 acc =
     (if i1 < 7 then hi_scan s ipe opt ip iw1 ht hp (i1 + 1) (hi_probe s ipe opt ip iw1 ht hp acc)
      else acc)"
  by pat_completeness auto
termination
  by (relation "measure (\<lambda>(s, ipe, opt, ip, iw1, ht, hp, i1, acc). 7 - i1)") auto

declare hi_scan.simps [simp del]

text \<open>"Try to consume literals by finding a match at back-position": the new
  \<^verbatim>\<open>rc\<close>, \<^verbatim>\<open>ip\<close> and \<^verbatim>\<open>lc\<close>.\<close>

definition hi_back_match :: "byte list \<Rightarrow> int \<Rightarrow> int \<Rightarrow> int \<Rightarrow> int \<Rightarrow> int \<Rightarrow> int \<Rightarrow> int \<times> int \<times> int" where
  "hi_back_match s ipe ip ipa wp d rc =
     (let lc = sz (ip - ipa)
      in if lc \<noteq> 0 then
           let ml0 = (if d > hi_mlen then hi_mlen else d);
               ml1 = (if ip + ml0 > ipe then sz (ipe - ip) else ml0);
               ml2 = sz (ml1 - rc);
               wpo = sz wp;
               ml3 = (if ml2 > lc then lc else ml2);
               ml4 = (if ml3 > wpo then wpo else ml3);
               bmc = lzav_match_len_r s ip wp ml4
           in if bmc \<noteq> 0 then (sz (rc + bmc), ip - s64 bmc, sz (lc - bmc))
              else (rc, ip, lc)
         else (rc, ip, lc))"

definition hi_overhead :: "int \<Rightarrow> int \<Rightarrow> int \<Rightarrow> int" where
  \<comment> \<open>"Block size overhead estimation" for a literal count, an offset and a carry shift\<close>
  "hi_overhead lc d csh =
     (let lb = (if lc \<noteq> 0 then 1 else 0);
          sh0 = 10 + (if csh \<noteq> 0 then 1 else 0) * 3;
          sh = sh0 + lb * 2
      in sz (lc + lb + (if lc > 15 then 1 else 0) + 2
           + (if d \<ge> push_bit (nat sh) 1 then 1 else 0)
           + (if d \<ge> push_bit (nat (sh + 8)) 1 then 1 else 0)))"

definition hi_emit :: "byte list \<Rightarrow> int \<Rightarrow> int \<Rightarrow> int \<Rightarrow> hstate \<Rightarrow> hstate" where
  \<comment> \<open>\<^verbatim>\<open>op = lzav_write_blk_2( op, lc, rc, d, ipa, &cbp, &csh, mref );\<close>\<close>
  "hi_emit s lc rc d st =
     (let (dst1, op1, cbp1, csh1) =
            lzav_write_blk_2 s (h_dst st) (h_op st) lc rc d (h_ipa st) (h_cbp st) (h_csh st) hi_mref
      in st\<lparr>h_op := op1, h_cbp := cbp1, h_csh := csh1, h_dst := dst1\<rparr>)"

definition lzav_compress_hi_round :: "byte list \<Rightarrow> int \<Rightarrow> int \<Rightarrow> hstate \<Rightarrow> hstate" where
  "lzav_compress_hi_round s ipe hmask st =
     (let ip = h_ip st;
          iw1 = rd32 s ip;
          hp = hash_slot (lzav_hash_hi iw1 (byte_at s (ip + 4))) hmask;
          ipo = ip mod 2 ^ 32;
          ti0 = uint (h_ht st (hp + 15));
          (ti, wp, rc, d) = hi_scan s ipe (ip + hi_mlen < ipe) ip iw1 (h_ht st) hp 0 (ti0, ip, 0, 0);
          ht1 = (if rc = 0 \<or> d > 273 then
                   let ti1 = (if ti0 = 0 then 12 else sz (ti0 - 2))
                   in (h_ht st)(hp + nat ti1 := iw1, hp + nat ti1 + 1 := word_of_int ipo,
                                hp + 15 := word_of_int ti1)
                 else h_ht st);
          st1 = st\<lparr>h_ht := ht1\<rparr>
      in if rc < hi_mref + (if d > 2 ^ 18 then 1 else 0) \<or> d < 8 \<or> d > LZAV_WIN_LEN - 1
         then st1\<lparr>h_ip := ip + 1\<rparr>
         else
           let (rc1, ip1, lc) = hi_back_match s ipe ip (h_ipa st) wp d rc
           in if h_prc st = 0 then st1\<lparr>h_prc := rc1, h_pd := d, h_pip := ip1, h_ip := ip + 1\<rparr>
              else
                let ov = hi_overhead lc d (h_csh st);
                    plc = sz (h_pip st - h_ipa st);
                    pov = hi_overhead plc (h_pd st) (h_csh st)
                in if sz (h_prc st * ov) > sz (rc1 * pov) then
                     if h_pip st + s64 (h_prc st) \<le> ip1 then
                       (hi_emit s plc (h_prc st) (h_pd st) st1)
                         \<lparr>h_ipa := h_pip st + s64 (h_prc st), h_prc := rc1, h_pd := d,
                          h_pip := ip1, h_ip := ip1 + 1\<rparr>
                     else
                       let ip2 = h_pip st + s64 (h_prc st)
                       in (hi_emit s plc (h_prc st) (h_pd st) st1)
                            \<lparr>h_ip := ip2, h_ipa := ip2, h_prc := 0\<rparr>
                   else
                     let ip2 = ip1 + s64 rc1
                     in (hi_emit s lc rc1 d st1)\<lparr>h_ip := ip2, h_ipa := ip2, h_prc := 0\<rparr>)"

text \<open>
  The main loop. A round that writes the previous match and keeps the current one sets
  \<^verbatim>\<open>ip\<close> to one past the back-extended position, which may lie before the position
  the round started from; the loop is therefore defined as a partial function, and
  \<open>None\<close> stands for a loop that does not end.
\<close>

partial_function (option) lzav_compress_hi_loop ::
  "byte list \<Rightarrow> int \<Rightarrow> int \<Rightarrow> hstate \<Rightarrow> hstate option" where
  "lzav_compress_hi_loop s ipe hmask st =
     (if h_ip st < ipe - 9
      then lzav_compress_hi_loop s ipe hmask (lzav_compress_hi_round s ipe hmask st)
      else Some st)"

declare lzav_compress_hi_loop.simps [code]

definition lzav_compress_hi ::
  "nat \<Rightarrow> byte list \<Rightarrow> nat \<Rightarrow> byte list \<Rightarrow> int \<Rightarrow> int \<Rightarrow> (int \<Rightarrow> bool)
     \<Rightarrow> fault + (int \<times> byte list)" where
  "lzav_compress_hi src s dst d srcl dstl alloc =
     (if srcl \<le> 0 \<or> src = 0 \<or> dst = 0 \<or> src = dst \<or> dstl < lzav_compress_bound_hi srcl
      then Inr (0, d)
      else
        let d1 = store d 0 [u8 (push_bit 4 LZAV_FMT_CUR OR hi_mref)]
        in if srcl < 16 then
             let d2 = store d1 1 [u8 srcl];
                 d3 = lzav_memcpy d2 2 s 0 srcl
             in if srcl > LZAV_LIT_FIN - 1 then Inr (2 + srcl, d3)
                else Inr (2 + LZAV_LIT_FIN, lzav_memset d3 (2 + srcl) 0 (LZAV_LIT_FIN - srcl))
           else
             case htsize_grow (2 ^ 23) srcl (2 ^ 7 * 4 * 2 * 8) of
               None \<Rightarrow> Inl No_return
             | Some htsize \<Rightarrow>
                 if \<not> alloc htsize then Inr (0, d1)
                 else
                   let hmask = (htsize - 1) XOR 63;
                       ipe = srcl - LZAV_LIT_FIN;
                       st0 = \<lparr>h_ip = 0, h_ipa = 0, h_op = 1, h_cbp = 1, h_csh = 0,
                              h_prc = 0, h_pd = 0, h_pip = 0,
                              h_ht = init_table (rd32 s 0) 0, h_dst = d1\<rparr>
                   in case lzav_compress_hi_loop s ipe hmask st0 of
                        None \<Rightarrow> Inl No_return
                      | Some st \<Rightarrow>
                          let st1 = (if h_prc st \<noteq> 0 then
                                       (hi_emit s (sz (h_pip st - h_ipa st)) (h_prc st) (h_pd st) st)
                                         \<lparr>h_ipa := h_pip st + s64 (h_prc st)\<rparr>
                                     else st);
                              (d2, op) = lzav_write_fin_2 s (h_dst st1) (h_op st1)
                                           (sz (ipe - h_ipa st1 + LZAV_LIT_FIN)) (h_ipa st1)
                          in Inr (cint op, d2))"

subsection \<open>The decoder (stream format 2)\<close>

text \<open>
  The state of the loop of \<^verbatim>\<open>lzav_decompress_2\<close>: the compressed data pointer, the
  destination pointer, the current block header \<^verbatim>\<open>bh\<close>, the offset carry value and
  shift, and the destination.
\<close>

record dstate =
  d_ip :: int
  d_op :: int
  d_bh :: int
  d_cv :: int
  d_csh :: int
  d_dst :: "byte list"

text \<open>
  How a block handler ends: \<^verbatim>\<open>continue\<close>, \<^verbatim>\<open>goto _refblk\<close>, or a \<^verbatim>\<open>return\<close> with the
  returned code, the value left in \<^verbatim>\<open>*pwl\<close> and the destination.
\<close>

datatype dstep = Continue dstate | Goto_refblk dstate | Return int int "byte list"

text \<open>
  The additional length bytes of a literal block: the loop
  \<^verbatim>\<open>while(( lcw & 0x80 ) != 0 ) { lcw = *ip; ++ip; cc |= ( lcw & 0x7F ) << sh; if( sh == 28 ) break; sh += 7; }\<close>
  runs with \<^verbatim>\<open>sh\<close> equal to 7, 14, 21 and 28. The result is \<^verbatim>\<open>cc\<close> and \<^verbatim>\<open>ip\<close>.
\<close>

fun get_len_from :: "byte list \<Rightarrow> int \<Rightarrow> int \<Rightarrow> int \<Rightarrow> nat list \<Rightarrow> int \<times> int" where
  "get_len_from s ip lcw cc [] = (cc, ip)"
| "get_len_from s ip lcw cc (sh # shs) =
     (if lcw AND 128 \<noteq> 0 then
        let lcw1 = uint (byte_at s ip)
        in get_len_from s (ip + 1) lcw1 (cc OR push_bit sh (lcw1 AND 127)) shs
      else (cc, ip))"

definition lzav_get_len :: "byte list \<Rightarrow> int \<Rightarrow> int \<times> int" where
  \<comment> \<open>from \<^verbatim>\<open>size_t lcw = *ip;\<close> to the end of the loop, \<open>ip\<close> at the first length byte\<close>
  "lzav_get_len s ip =
     (let lcw = uint (byte_at s ip)
      in get_len_from s (ip + 1) lcw (lcw AND 127) [7, 14, 21, 28])"

text \<open>
  The end of a literal block that did not take the fast path: the carry is taken, the
  next header is read if the source has one, and the literals are copied if both
  buffers hold them. \<open>ipd\<close> and \<open>cc\<close> are the literals still to copy.
\<close>

definition dec_literal_tail ::
  "byte list \<Rightarrow> int \<Rightarrow> int \<Rightarrow> int \<Rightarrow> int \<Rightarrow> int \<Rightarrow> dstate \<Rightarrow> dstep" where
  "dec_literal_tail s ipe ope ncv ipd cc st =
     (let ip = d_ip st;
          op = d_op st;
          dst = d_dst st;
          st1 = st\<lparr>d_cv := d_cv st OR ncv, d_csh := d_csh st + 2\<rparr>
      in if \<not> ip < ipe \<and> ip \<noteq> ipe then
           \<comment> \<open>\<^verbatim>\<open>_err_srcoob_lit\<close>\<close>
           let cc1 = sz (ipe - ipd)
           in if op + cc1 < ope
              then Return LZAV_E_SRCOOB (sz (cint (op + cc1))) (lzav_memcpy dst op s ipd cc1)
              else Return LZAV_E_SRCOOB ope (lzav_memcpy dst op s ipd (ope - op))
         else
           let st2 = (if ip < ipe then st1\<lparr>d_bh := uint (byte_at s ip)\<rparr> else st1)
           in if op + cc > ope then
                \<comment> \<open>\<^verbatim>\<open>_err_dstoob_lit\<close>\<close>
                Return LZAV_E_DSTOOB ope (lzav_memcpy dst op s ipd (ope - op))
              else Continue (st2\<lparr>d_dst := lzav_memcpy dst op s ipd cc, d_op := op + cc\<rparr>))"

definition dec_literal :: "byte list \<Rightarrow> int \<Rightarrow> int \<Rightarrow> dstate \<Rightarrow> dstep" where
  \<comment> \<open>"Block type 0"\<close>
  "dec_literal s ipe ope st =
     (let bh = d_bh st;
          op = d_op st;
          opet = ope - 63;
          ip1 = d_ip st + 1;
          cc0 = bh AND 15;
          ncv = sz (push_bit (nat (d_csh st)) (drop_bit 6 bh))
      in if cc0 \<noteq> 0 then
           let ipd = ip1;
               ip2 = ip1 + cc0
           in if op < opet \<and> ipd < ipe - 15 - 7 then
                Goto_refblk (st\<lparr>d_cv := d_cv st OR ncv, d_csh := d_csh st + 2,
                                d_bh := uint (byte_at s ip2),
                                d_dst := lzav_memcpy (d_dst st) op s ipd 16,
                                d_op := op + cc0, d_ip := ip2\<rparr>)
              else dec_literal_tail s ipe ope ncv ipd cc0 (st\<lparr>d_ip := ip2\<rparr>)
         else
           let (cc1, ipd) = lzav_get_len s ip1;
               cc = sz (cc1 + 16);
               ip2 = ipd + cc
           in if op < opet \<and> ipd < ipe - 63 - 16 then
                let dst1 = lzav_memcpy (d_dst st) op s ipd 16;
                    dst2 = lzav_memcpy dst1 (op + 16) s (ipd + 16) 16;
                    dst3 = lzav_memcpy dst2 (op + 32) s (ipd + 32) 16;
                    dst4 = lzav_memcpy dst3 (op + 48) s (ipd + 48) 16
                in if cc < 65 then
                     Goto_refblk (st\<lparr>d_cv := d_cv st OR ncv, d_csh := d_csh st + 2,
                                     d_bh := uint (byte_at s ip2), d_dst := dst4,
                                     d_op := op + cc, d_ip := ip2\<rparr>)
                   else dec_literal_tail s ipe ope ncv (ipd + 64) (cc - 64)
                          (st\<lparr>d_ip := ip2, d_op := op + 64, d_dst := dst4\<rparr>)
              else dec_literal_tail s ipe ope ncv ipd cc (st\<lparr>d_ip := ip2\<rparr>))"

text \<open>
  The expansion of a reference of \<open>cc\<close> bytes read at \<open>ipd\<close> (the destination pointer
  less the offset) and written at \<open>op\<close>. With at least 64 bytes of destination left the
  copy is wide: 16 and 4 bytes for a short reference, four times 16 for a long one
  (\<open>long\<close>: the length took an additional byte), each through \<^verbatim>\<open>LZAV_MEMMOVE\<close>, which
  reads its 16 bytes before it writes them. Otherwise, and for the rest of a long
  reference, it is the byte loop. The result is \<open>Inl\<close> with the destination, \<^verbatim>\<open>op\<close> and
  \<^verbatim>\<open>ipd\<close> when the reference does not fit the destination (\<^verbatim>\<open>goto _err_dstoob_ref\<close>),
  or the destination and the new \<^verbatim>\<open>op\<close>.
\<close>

definition ref_bytes ::
  "byte list \<Rightarrow> int \<Rightarrow> int \<Rightarrow> int \<Rightarrow> int \<Rightarrow> (byte list \<times> int \<times> int) + (byte list \<times> int)" where
  "ref_bytes dst op ipd cc ope =
     (if op + cc > ope then Inl (dst, op, ipd)
      else Inr (copy_bytes dst op ipd (nat cc), op + cc))"

definition ref_expand ::
  "bool \<Rightarrow> byte list \<Rightarrow> int \<Rightarrow> int \<Rightarrow> int \<Rightarrow> int
     \<Rightarrow> (byte list \<times> int \<times> int) + (byte list \<times> int)" where
  "ref_expand long dst op ipd cc ope =
     (if op < ope - 63 then
        if long then
          let dst1 = LZAV_MEMMOVE dst op ipd 16;
              dst2 = LZAV_MEMMOVE dst1 (op + 16) (ipd + 16) 16;
              dst3 = LZAV_MEMMOVE dst2 (op + 32) (ipd + 32) 16;
              dst4 = LZAV_MEMMOVE dst3 (op + 48) (ipd + 48) 16
          in if cc < 65 then Inr (dst4, op + cc)
             else ref_bytes dst4 (op + 64) (ipd + 64) (cc - 64) ope
        else
          Inr (LZAV_MEMMOVE (LZAV_MEMMOVE dst op ipd 16) (op + 16) (ipd + 16) 4, op + cc)
      else ref_bytes dst op ipd cc ope)"

definition dec_refblk :: "byte list \<Rightarrow> int \<Rightarrow> int \<Rightarrow> dstate \<Rightarrow> dstep" where
  \<comment> \<open>\<^verbatim>\<open>_refblk\<close>: \<open>mref1\<close> is the minimal reference length less 1\<close>
  "dec_refblk s ope mref1 st =
     (let bh = d_bh st;
          op = d_op st;
          bt = drop_bit 4 bh AND 3;
          ip1 = d_ip st + 1;
          bt8 = nat (push_bit 3 bt);
          bv = uint (rd32 s ip1);
          om = (push_bit bt8 1 - 1) mod 2 ^ 32;
          ip2 = ip1 + bt;
          ofs = bv AND om;
          bv1 = drop_bit bt8 bv;
          d = sz (push_bit (nat (d_csh st)) (drop_bit 6 bh OR push_bit 2 (ofs AND 0x1FFFFF))) OR d_cv st;
          ipd = op - d
      in if d > op then Return LZAV_E_REFOOB (sz (cint op)) (d_dst st)
         else
           let st1 = st\<lparr>d_csh := ocsh bt, d_cv := drop_bit 21 ofs\<rparr>;
               cc0 = bh AND 15;
               bh0 = bv1 AND 255;
               (long, cc, ip3, bh1) =
                  (if cc0 \<noteq> 0 then (False, sz (cc0 + mref1), ip2, bh0)
                   else if bh0 = 255 then
                     (True, sz (16 + mref1 + 255 + uint (byte_at s (ip2 + 1))), ip2 + 2,
                      uint (byte_at s (ip2 + 2)))
                   else (True, sz (16 + mref1 + bh0), ip2 + 1, uint (byte_at s (ip2 + 1))))
           in case ref_expand long (d_dst st) op ipd cc ope of
                Inl (dst1, op1, ipd1) \<Rightarrow>
                  Return LZAV_E_DSTOOB ope (lzav_memmove dst1 op1 ipd1 (ope - op1))
              | Inr (dst1, op1) \<Rightarrow>
                  Continue (st1\<lparr>d_ip := ip3, d_bh := bh1, d_op := op1, d_dst := dst1\<rparr>))"

text \<open>One round of \<^verbatim>\<open>while( LZAV_LIKELY( ip < ipet ))\<close>: a literal block, which may
  lead straight into the reference block that follows it, or a reference block.\<close>

definition lzav_decompress_2_round :: "byte list \<Rightarrow> int \<Rightarrow> int \<Rightarrow> int \<Rightarrow> dstate \<Rightarrow> dstep" where
  "lzav_decompress_2_round s ipe ope mref1 st =
     (case (if d_bh st AND 0x30 = 0 then dec_literal s ipe ope st else Goto_refblk st) of
        Goto_refblk st1 \<Rightarrow> dec_refblk s ope mref1 st1
      | r \<Rightarrow> r)"

text \<open>
  The loop ends: a block header is one byte at least, so every round that continues
  has moved the compressed data pointer forwards.
\<close>

lemma get_len_from_fst_nonneg:
  "0 \<le> cc \<Longrightarrow> 0 \<le> fst (get_len_from s ip lcw cc shs)"
  by (induction shs arbitrary: ip lcw cc) (simp_all add: Let_def)

lemma get_len_from_snd_ge: "ip \<le> snd (get_len_from s ip lcw cc shs)"
proof (induction shs arbitrary: ip lcw cc)
  case Nil
  then show ?case by simp
next
  case (Cons sh shs)
  from Cons [of "ip + 1" "uint (byte_at s ip)" "cc OR push_bit sh (uint (byte_at s ip) AND 127)"]
  show ?case by (simp add: Let_def)
qed

lemma lzav_get_len_bounds:
  assumes "lzav_get_len s ip = (cc, ipd)"
  shows "0 \<le> cc \<and> ip < ipd"
proof -
  have "0 \<le> uint (byte_at s ip) AND 127" by simp
  from get_len_from_fst_nonneg [OF this, of s "ip + 1" "uint (byte_at s ip)" "[7, 14, 21, 28]"]
    get_len_from_snd_ge [of "ip + 1" s "uint (byte_at s ip)" "uint (byte_at s ip) AND 127" "[7, 14, 21, 28]"]
    assms
  show ?thesis by (simp add: lzav_get_len_def Let_def)
qed

lemma and_nonneg_succ_pos: "0 \<le> b \<Longrightarrow> 0 < 1 + (a AND b)" for a b :: int
proof -
  assume "0 \<le> b"
  then have "0 \<le> a AND b" by simp
  then show ?thesis by linarith
qed

lemma dec_literal_tail_progress:
  assumes "dec_literal_tail s ipe ope ncv ipd cc st = Continue st1"
  shows "d_ip st1 = d_ip st"
  using assms by (auto simp: dec_literal_tail_def Let_def split: if_splits)

lemma dec_literal_tail_no_goto: "dec_literal_tail s ipe ope ncv ipd cc st \<noteq> Goto_refblk st1"
  by (auto simp: dec_literal_tail_def Let_def split: if_splits)

lemma dec_literal_progress:
  assumes "dec_literal s ipe ope st = Continue st1 \<or> dec_literal s ipe ope st = Goto_refblk st1"
  shows "d_ip st < d_ip st1"
proof (cases "d_bh st AND 15 \<noteq> 0")
  case True
  with assms show ?thesis
    by (auto simp: dec_literal_def Let_def and_nonneg_succ_pos dec_literal_tail_no_goto
        split: if_splits dest!: dec_literal_tail_progress)
next
  case False
  obtain cc1 ipd where g: "lzav_get_len s (d_ip st + 1) = (cc1, ipd)"
    by (cases "lzav_get_len s (d_ip st + 1)") auto
  from lzav_get_len_bounds [OF g] have b: "0 \<le> cc1" "d_ip st + 1 < ipd" by simp_all
  define cc where "cc = sz (cc1 + 16)"
  have c: "0 \<le> cc" by (simp add: sz_def cc_def)
  from False assms b c show ?thesis
    by (auto simp: dec_literal_def Let_def g dec_literal_tail_no_goto cc_def [symmetric]
        split: if_splits dest!: dec_literal_tail_progress)
qed

lemma dec_refblk_progress:
  assumes "dec_refblk s ope mref1 st = Continue st1"
  shows "d_ip st < d_ip st1"
proof -
  define bt where "bt = drop_bit 4 (d_bh st) AND 3"
  have "0 \<le> bt" by (simp add: bt_def)
  with assms show ?thesis
    unfolding dec_refblk_def Let_def bt_def [symmetric]
    by (auto split: if_splits sum.splits prod.splits)
qed

lemma dec_refblk_no_goto: "dec_refblk s ope mref1 st \<noteq> Goto_refblk st1"
  by (auto simp: dec_refblk_def Let_def split: if_splits sum.splits prod.splits)

lemma lzav_decompress_2_round_progress:
  assumes "lzav_decompress_2_round s ipe ope mref1 st = Continue st1"
  shows "d_ip st < d_ip st1"
proof (cases "d_bh st AND 0x30 = 0")
  case False
  with assms show ?thesis
    by (auto simp: lzav_decompress_2_round_def dest: dec_refblk_progress)
next
  case True
  show ?thesis
  proof (cases "dec_literal s ipe ope st")
    case (Continue st2)
    with True assms dec_literal_progress [of s ipe ope st st1] show ?thesis
      by (simp add: lzav_decompress_2_round_def)
  next
    case (Goto_refblk st2)
    with True assms dec_literal_progress [of s ipe ope st st2] dec_refblk_progress [of s ope mref1 st2 st1]
    show ?thesis by (simp add: lzav_decompress_2_round_def)
  next
    case (Return c p b)
    with True assms show ?thesis by (simp add: lzav_decompress_2_round_def)
  qed
qed

text \<open>
  The loop of \<^verbatim>\<open>lzav_decompress_2\<close> with its exits. The result is the returned code,
  the value left in \<^verbatim>\<open>*pwl\<close> (set to \<^verbatim>\<open>dstl\<close> on entry) and the destination.
\<close>

function lzav_decompress_2_loop ::
  "byte list \<Rightarrow> int \<Rightarrow> int \<Rightarrow> int \<Rightarrow> dstate \<Rightarrow> int \<times> int \<times> byte list" where
  "lzav_decompress_2_loop s ipe ope mref1 st =
     (if d_ip st < ipe - 6 then
        case lzav_decompress_2_round s ipe ope mref1 st of
          Continue st1 \<Rightarrow> lzav_decompress_2_loop s ipe ope mref1 st1
        | Goto_refblk st1 \<Rightarrow> lzav_decompress_2_loop s ipe ope mref1 st1
        | Return c pwl dst \<Rightarrow> (c, pwl, dst)
      else if d_op st \<noteq> ope then (LZAV_E_DSTLEN, sz (cint (d_op st)), d_dst st)
      else (cint (d_op st), ope, d_dst st))"
  by pat_completeness auto
termination
proof (relation "measure (\<lambda>(s, ipe, ope, mref1, st). nat (ipe - d_ip st))")
  show "wf (measure (\<lambda>(s, ipe, ope, mref1, st). nat (ipe - d_ip st)))" by simp
next
  fix s :: "byte list" and ipe ope mref1 :: int and st st1 :: dstate
  assume "d_ip st < ipe - 6" "lzav_decompress_2_round s ipe ope mref1 st = Continue st1"
  then show "((s, ipe, ope, mref1, st1), (s, ipe, ope, mref1, st))
          \<in> measure (\<lambda>(s, ipe, ope, mref1, st). nat (ipe - d_ip st))"
    using lzav_decompress_2_round_progress [of s ipe ope mref1 st st1] by simp
next
  fix s :: "byte list" and ipe ope mref1 :: int and st st1 :: dstate
  assume "d_ip st < ipe - 6" "lzav_decompress_2_round s ipe ope mref1 st = Goto_refblk st1"
  then have False
    by (auto simp: lzav_decompress_2_round_def dec_refblk_no_goto dec_literal_tail_no_goto
        split: dstep.splits if_splits)
  then show "((s, ipe, ope, mref1, st1), (s, ipe, ope, mref1, st))
          \<in> measure (\<lambda>(s, ipe, ope, mref1, st). nat (ipe - d_ip st))" ..
qed

declare lzav_decompress_2_loop.simps [simp del]

definition lzav_decompress_2 ::
  "byte list \<Rightarrow> byte list \<Rightarrow> int \<Rightarrow> int \<Rightarrow> int \<times> int \<times> byte list" where
  "lzav_decompress_2 s dst srcl dstl =
     (let ipe = srcl;
          ipet = ipe - 6;
          mref1 = sz ((uint (byte_at s 0) AND 15) - 1);
          ip = 1
      in if ip \<ge> ipet then (LZAV_E_SRCOOB, 0, dst)
         else lzav_decompress_2_loop s ipe dstl mref1
                \<lparr>d_ip = ip, d_op = 0, d_bh = uint (byte_at s ip), d_cv = 0, d_csh = 0,
                 d_dst = dst\<rparr>)"

subsection \<open>The decoder (stream format 1)\<close>

text \<open>
  \<^verbatim>\<open>lzav_decompress_1\<close>, compiled in since \<^verbatim>\<open>LZAV_FMT_MIN\<close> is 1. It shares the state and
  the reference expansion with the format-2 decoder; its errors return the code alone.
\<close>

definition dec1_literal_tail :: "byte list \<Rightarrow> int \<Rightarrow> int \<Rightarrow> int \<Rightarrow> int \<Rightarrow> dstate \<Rightarrow> dstep" where
  "dec1_literal_tail s ipe ope ipd cc st =
     (let ip = d_ip st;
          op = d_op st
      in if \<not> ip < ipe \<and> ip \<noteq> ipe then Return LZAV_E_SRCOOB 0 (d_dst st)
         else
           let st1 = (if ip < ipe then st\<lparr>d_bh := uint (byte_at s ip)\<rparr> else st)
           in if op + cc > ope then Return LZAV_E_DSTOOB 0 (d_dst st)
              else Continue (st1\<lparr>d_dst := lzav_memcpy (d_dst st) op s ipd cc, d_op := op + cc\<rparr>))"

definition lzav_get_len_1 :: "byte list \<Rightarrow> int \<Rightarrow> int \<times> int" where
  \<comment> \<open>from \<^verbatim>\<open>LZAV_LOAD16( ip )\<close> to \<^verbatim>\<open>ipd = ip\<close>: the length, in one or two bytes\<close>
  "lzav_get_len_1 s ip =
     (let bv = uint (rd16 s ip);
          l2 = bv AND 255;
          lb = (if l2 = 255 then 1 else 0)
      in (sz (16 + (l2 + (drop_bit 8 bv AND (256 - lb)))), ip + 1 + lb))"

definition dec1_literal :: "byte list \<Rightarrow> int \<Rightarrow> int \<Rightarrow> dstate \<Rightarrow> dstep" where
  "dec1_literal s ipe ope st0 =
     (let bh = d_bh st0;
          st = st0\<lparr>d_cv := drop_bit 6 bh, d_csh := 2\<rparr>;
          op = d_op st;
          opet = ope - 63;
          ip1 = d_ip st + 1;
          cc0 = bh AND 15
      in if cc0 \<noteq> 0 then
           let ipd = ip1;
               ip2 = ip1 + cc0
           in if op < opet \<and> ipd < ipe - 15 - 6 then
                Goto_refblk (st\<lparr>d_bh := uint (byte_at s ip2),
                                d_dst := lzav_memcpy (d_dst st) op s ipd 16,
                                d_op := op + cc0, d_ip := ip2\<rparr>)
              else dec1_literal_tail s ipe ope ipd cc0 (st\<lparr>d_ip := ip2\<rparr>)
         else
           let (cc, ipd) = lzav_get_len_1 s ip1;
               ip2 = ipd + cc
           in if op < opet \<and> ipd < ipe - 63 - 1 then
                let dst1 = lzav_memcpy (d_dst st) op s ipd 16;
                    dst2 = lzav_memcpy dst1 (op + 16) s (ipd + 16) 16;
                    dst3 = lzav_memcpy dst2 (op + 32) s (ipd + 32) 16;
                    dst4 = lzav_memcpy dst3 (op + 48) s (ipd + 48) 16
                in if cc < 65 then
                     Continue (st\<lparr>d_bh := uint (byte_at s ip2), d_dst := dst4,
                                  d_op := op + cc, d_ip := ip2\<rparr>)
                   else dec1_literal_tail s ipe ope (ipd + 64) (cc - 64)
                          (st\<lparr>d_ip := ip2, d_op := op + 64, d_dst := dst4\<rparr>)
              else dec1_literal_tail s ipe ope ipd cc (st\<lparr>d_ip := ip2\<rparr>))"

definition dec1_refblk :: "byte list \<Rightarrow> int \<Rightarrow> int \<Rightarrow> dstate \<Rightarrow> dstep" where
  "dec1_refblk s ope mref1 st =
     (let bh = d_bh st;
          ip = d_ip st;
          op = d_op st;
          cc0 = bh AND 15;
          (x, v, sh, ip1, bh1) =
             (if bh AND 32 = 0 then
                (drop_bit 6 bh OR push_bit 2 (uint (byte_at s (ip + 1))), 0, 0, ip + 2,
                 uint (byte_at s (ip + 2)))
              else if bh AND 16 = 0 then
                (drop_bit 6 bh OR push_bit 2 (uint (rd16 s (ip + 1))), 0, 0, ip + 3,
                 uint (byte_at s (ip + 3)))
              else
                (uint (rd32 s (ip + 1)) AND 0xFFFFFF, drop_bit 6 bh, 2, ip + 4,
                 drop_bit 24 (uint (rd32 s (ip + 1)))));
          d = sz (push_bit (nat (d_csh st)) x) OR d_cv st;
          ipd = op - d
      in if d > op then Return LZAV_E_REFOOB 0 (d_dst st)
         else
           let st1 = st\<lparr>d_csh := sh, d_cv := v\<rparr>;
               (long, cc, ip2, bh2) =
                  (if cc0 \<noteq> 0 then (False, sz (cc0 + mref1), ip1, bh1)
                   else (True, sz (16 + mref1 + bh1), ip1 + 1, uint (byte_at s (ip1 + 1))))
           in case ref_expand long (d_dst st) op ipd cc ope of
                Inl (dst1, op1, ipd1) \<Rightarrow> Return LZAV_E_DSTOOB 0 dst1
              | Inr (dst1, op1) \<Rightarrow>
                  Continue (st1\<lparr>d_ip := ip2, d_bh := bh2, d_op := op1, d_dst := dst1\<rparr>))"

definition lzav_decompress_1_round :: "byte list \<Rightarrow> int \<Rightarrow> int \<Rightarrow> int \<Rightarrow> dstate \<Rightarrow> dstep" where
  "lzav_decompress_1_round s ipe ope mref1 st =
     (case (if d_bh st AND 0x30 = 0 then dec1_literal s ipe ope st else Goto_refblk st) of
        Goto_refblk st1 \<Rightarrow> dec1_refblk s ope mref1 st1
      | r \<Rightarrow> r)"

lemma lzav_get_len_1_bounds:
  assumes "lzav_get_len_1 s ip = (cc, ipd)"
  shows "0 \<le> cc \<and> ip < ipd"
  using assms by (auto simp: lzav_get_len_1_def Let_def sz_def split: if_splits)

lemma dec1_literal_tail_progress:
  assumes "dec1_literal_tail s ipe ope ipd cc st = Continue st1"
  shows "d_ip st1 = d_ip st"
  using assms by (auto simp: dec1_literal_tail_def Let_def split: if_splits)

lemma dec1_literal_tail_no_goto: "dec1_literal_tail s ipe ope ipd cc st \<noteq> Goto_refblk st1"
  by (auto simp: dec1_literal_tail_def Let_def split: if_splits)

lemma dec1_literal_progress:
  assumes "dec1_literal s ipe ope st = Continue st1 \<or> dec1_literal s ipe ope st = Goto_refblk st1"
  shows "d_ip st < d_ip st1"
proof (cases "d_bh st AND 15 \<noteq> 0")
  case True
  with assms show ?thesis
    by (auto simp: dec1_literal_def Let_def and_nonneg_succ_pos dec1_literal_tail_no_goto
        split: if_splits dest!: dec1_literal_tail_progress)
next
  case False
  obtain cc ipd where g: "lzav_get_len_1 s (d_ip st + 1) = (cc, ipd)"
    by (cases "lzav_get_len_1 s (d_ip st + 1)") auto
  from lzav_get_len_1_bounds [OF g] have b: "0 \<le> cc" "d_ip st + 1 < ipd" by simp_all
  from False assms b show ?thesis
    by (auto simp: dec1_literal_def Let_def g dec1_literal_tail_no_goto
        split: if_splits dest!: dec1_literal_tail_progress)
qed

lemma dec1_refblk_progress:
  assumes "dec1_refblk s ope mref1 st = Continue st1"
  shows "d_ip st < d_ip st1"
  using assms
  by (auto simp: dec1_refblk_def Let_def split: if_splits sum.splits prod.splits)

lemma dec1_refblk_no_goto: "dec1_refblk s ope mref1 st \<noteq> Goto_refblk st1"
  by (auto simp: dec1_refblk_def Let_def split: if_splits sum.splits prod.splits)

lemma lzav_decompress_1_round_progress:
  assumes "lzav_decompress_1_round s ipe ope mref1 st = Continue st1"
  shows "d_ip st < d_ip st1"
proof (cases "d_bh st AND 0x30 = 0")
  case False
  with assms show ?thesis
    by (auto simp: lzav_decompress_1_round_def dest: dec1_refblk_progress)
next
  case True
  show ?thesis
  proof (cases "dec1_literal s ipe ope st")
    case (Continue st2)
    with True assms dec1_literal_progress [of s ipe ope st st1] show ?thesis
      by (simp add: lzav_decompress_1_round_def)
  next
    case (Goto_refblk st2)
    with True assms dec1_literal_progress [of s ipe ope st st2]
      dec1_refblk_progress [of s ope mref1 st2 st1]
    show ?thesis by (simp add: lzav_decompress_1_round_def)
  next
    case (Return c p b)
    with True assms show ?thesis by (simp add: lzav_decompress_1_round_def)
  qed
qed

function lzav_decompress_1_loop ::
  "byte list \<Rightarrow> int \<Rightarrow> int \<Rightarrow> int \<Rightarrow> dstate \<Rightarrow> int \<times> byte list" where
  "lzav_decompress_1_loop s ipe ope mref1 st =
     (if d_ip st < ipe - 5 then
        case lzav_decompress_1_round s ipe ope mref1 st of
          Continue st1 \<Rightarrow> lzav_decompress_1_loop s ipe ope mref1 st1
        | Goto_refblk st1 \<Rightarrow> lzav_decompress_1_loop s ipe ope mref1 st1
        | Return c pwl dst \<Rightarrow> (c, dst)
      else if d_op st \<noteq> ope then (LZAV_E_DSTLEN, d_dst st)
      else (cint (d_op st), d_dst st))"
  by pat_completeness auto
termination
proof (relation "measure (\<lambda>(s, ipe, ope, mref1, st). nat (ipe - d_ip st))")
  show "wf (measure (\<lambda>(s, ipe, ope, mref1, st). nat (ipe - d_ip st)))" by simp
next
  fix s :: "byte list" and ipe ope mref1 :: int and st st1 :: dstate
  assume "d_ip st < ipe - 5" "lzav_decompress_1_round s ipe ope mref1 st = Continue st1"
  then show "((s, ipe, ope, mref1, st1), (s, ipe, ope, mref1, st))
          \<in> measure (\<lambda>(s, ipe, ope, mref1, st). nat (ipe - d_ip st))"
    using lzav_decompress_1_round_progress [of s ipe ope mref1 st st1] by simp
next
  fix s :: "byte list" and ipe ope mref1 :: int and st st1 :: dstate
  assume "d_ip st < ipe - 5" "lzav_decompress_1_round s ipe ope mref1 st = Goto_refblk st1"
  then have False
    by (auto simp: lzav_decompress_1_round_def dec1_refblk_no_goto dec1_literal_tail_no_goto
        split: dstep.splits if_splits)
  then show "((s, ipe, ope, mref1, st1), (s, ipe, ope, mref1, st))
          \<in> measure (\<lambda>(s, ipe, ope, mref1, st). nat (ipe - d_ip st))" ..
qed

declare lzav_decompress_1_loop.simps [simp del]

definition lzav_decompress_1 :: "byte list \<Rightarrow> byte list \<Rightarrow> int \<Rightarrow> int \<Rightarrow> int \<times> byte list" where
  "lzav_decompress_1 s dst srcl dstl =
     (let ipe = srcl;
          ipet = ipe - 5;
          mref1 = sz ((uint (byte_at s 0) AND 15) - 1);
          ip = 1
      in if ip \<ge> ipet then (LZAV_E_SRCOOB, dst)
         else lzav_decompress_1_loop s ipe dstl mref1
                \<lparr>d_ip = ip, d_op = 0, d_bh = uint (byte_at s ip), d_cv = 0, d_csh = 0,
                 d_dst = dst\<rparr>)"

subsection \<open>The decoder's entry points\<close>

text \<open>
  \<^verbatim>\<open>lzav_decompress_partial\<close> and \<^verbatim>\<open>lzav_decompress\<close>. Both read the prefix byte through
  \<open>src\<close> before they look at \<open>srcl\<close>; \<^verbatim>\<open>lzav_decompress\<close> then has a path for tiny data,
  taken for every source of at most \<^verbatim>\<open>LZAV_TINY_MAX + 2\<close> bytes in the current
  format: it reads the second byte as a length and copies that many bytes from the
  third byte on, without a look at \<open>srcl\<close> or at the length expected. The result is the
  returned \<^verbatim>\<open>int32_t\<close> and the destination object after the call.
\<close>

definition lzav_decompress_partial ::
  "nat \<Rightarrow> byte list \<Rightarrow> nat \<Rightarrow> byte list \<Rightarrow> int \<Rightarrow> int \<Rightarrow> fault + (int \<times> byte list)" where
  "lzav_decompress_partial src s dst d srcl dstl =
     (if src = 0 \<or> dst = 0 \<or> src = dst then Inr (0, d)
      else if length s < 1 then Inl Read_oob
      else
        let fmt = drop_bit 4 (uint (byte_at s 0))
        in if fmt = 2 then
             let (r, dl, d1) = lzav_decompress_2 s d srcl dstl
             in Inr (cint dl, d1)
           else Inr (cint 0, d))"

definition lzav_decompress ::
  "nat \<Rightarrow> byte list \<Rightarrow> nat \<Rightarrow> byte list \<Rightarrow> int \<Rightarrow> int \<Rightarrow> fault + (int \<times> byte list)" where
  "lzav_decompress src s dst d srcl dstl =
     (if src = 0 \<or> dst = 0 \<or> src = dst then Inr (LZAV_E_PARAMS, d)
      else if length s < 1 then Inl Read_oob
      else
        let fmt = drop_bit 4 (uint (byte_at s 0));
            tiny = (srcl \<le> LZAV_TINY_MAX + 2 \<and> drop_bit 4 (uint (byte_at s 0)) = LZAV_FMT_CUR)
        in if tiny \<and> length s < 2 then Inl Read_oob
           else if tiny \<and> uint (byte_at s 1) \<le> LZAV_TINY_MAX \<and> uint (byte_at s 1) \<le> dstl then
             let len = uint (byte_at s 1)
             in if int (length s) < 2 + len then Inl Read_oob
                else Inr (len, lzav_memcpy d 0 s 2 len)
           else if fmt = 2 then
             let (r, tmp, d1) = lzav_decompress_2 s d srcl dstl
             in Inr (r, d1)
           else if fmt = 1 then Inr (lzav_decompress_1 s d srcl dstl)
           else Inr (LZAV_E_UNKFMT, d))"

section \<open>Properties of the bounds\<close>

lemma cint_id: "- 2147483648 \<le> x \<Longrightarrow> x < 2147483648 \<Longrightarrow> cint x = x"
  unfolding cint_def by (simp add: signed_take_bit_int_eq_self)

lemma c_div_nonneg: "0 \<le> a \<Longrightarrow> 0 < b \<Longrightarrow> c_div a b = a div b"
  by (cases "a = 0") (simp_all add: c_div_def)

text \<open>
  Where no intermediate value overflows, the bound has a closed form: the input length,
  one byte per 150 input bytes, two bytes for a started group, and 16.
\<close>

lemma compress_bound_closed:
  assumes "0 < n" "n \<le> 2133261884"
  shows "lzav_compress_bound n = n + n div 150 + 2 * ((n mod 150 + 143) div 144) + 16"
proof -
  define q where "q = n div 150"
  define r where "r = n mod 150"
  define t where "t = (r + 143) div 144"
  have n: "n = 150 * q + r" by (simp add: q_def r_def)
  have q: "0 \<le> q" "q \<le> 14221745" and r: "0 \<le> r" "r < 150"
    using assms by (auto simp: q_def r_def)
  have t: "0 \<le> t" "t \<le> 2" using r by (auto simp: t_def)
  have e: "lzav_compress_bound n =
      cint (cint (cint (cint (c_div (cint (cint (cint (n - cint (c_div n 150 * 6)) + 144) - 1)) 144 * 2)
        - c_div n 150) + n) + 16)"
    using assms(1) by (simp add: lzav_compress_bound_def Let_def)
  have c1: "c_div n 150 = q"
    using assms by (simp add: c_div_nonneg q_def)
  have c2: "cint (q * 6) = q * 6"
    using q by (intro cint_id) linarith+
  have c3: "cint (n - q * 6) = n - q * 6"
    using q r n by (intro cint_id) linarith+
  have c4: "cint (n - q * 6 + 144) = n - q * 6 + 144"
    using q r n by (intro cint_id) linarith+
  have c5: "cint (n - q * 6 + 144 - 1) = 144 * q + (r + 143)"
    using q r n cint_id [of "144 * q + (r + 143)"] by (simp add: algebra_simps)
  have "(144 * q + (r + 143)) div 144 = q + t"
    unfolding t_def by simp
  then have c6: "c_div (144 * q + (r + 143)) 144 = q + t"
    using q r by (simp add: c_div_nonneg)
  have m: "(q + t) * 2 = 2 * q + 2 * t" by simp
  have c7: "cint ((q + t) * 2) = (q + t) * 2"
    unfolding m using q t by (intro cint_id) linarith+
  have c8: "cint ((q + t) * 2 - q) = (q + t) * 2 - q"
    unfolding m using q t by (intro cint_id) linarith+
  have c9: "cint ((q + t) * 2 - q + n) = (q + t) * 2 - q + n"
    unfolding m using q t assms by (intro cint_id) linarith+
  have "t \<le> 1 \<or> q \<le> 14221744"
  proof (cases "q \<le> 14221744")
    case False
    then have "r \<le> 134" using q n assms by linarith
    then have "(r + 143) div 144 \<le> 277 div 144" by (intro zdiv_mono1) simp_all
    then show ?thesis unfolding t_def by simp
  qed simp
  then have c10: "cint ((q + t) * 2 - q + n + 16) = (q + t) * 2 - q + n + 16"
    unfolding m using q t r n assms by (intro cint_id) linarith+
  show ?thesis
    unfolding e c1 c2 c3 c4 c5 c6 c7 c8 c9 c10
    unfolding t_def r_def q_def by simp
qed

lemma compress_bound_hi_closed:
  assumes "0 < n" "n \<le> 2049870737"
  shows "lzav_compress_bound_hi n = n + n div 21 + 2 * ((n mod 21 + 15) div 16) + 16"
proof -
  define q where "q = n div 21"
  define r where "r = n mod 21"
  define t where "t = (r + 15) div 16"
  have n: "n = 21 * q + r" by (simp add: q_def r_def)
  have q: "0 \<le> q" "q \<le> 97612892" and r: "0 \<le> r" "r < 21"
    using assms by (auto simp: q_def r_def)
  have t: "0 \<le> t" "t \<le> 2" using r by (auto simp: t_def)
  have e: "lzav_compress_bound_hi n =
      cint (cint (cint (cint (c_div (cint (cint (n - cint (c_div n 21 * 5)) + 15)) 16 * 2)
        - c_div n 21) + n) + 16)"
    using assms(1) by (simp add: lzav_compress_bound_hi_def Let_def)
  have c1: "c_div n 21 = q"
    using assms by (simp add: c_div_nonneg q_def)
  have c2: "cint (q * 5) = q * 5"
    using q by (intro cint_id) linarith+
  have c3: "cint (n - q * 5) = n - q * 5"
    using q r n by (intro cint_id) linarith+
  have c5: "cint (n - q * 5 + 15) = 16 * q + (r + 15)"
    using q r n cint_id [of "16 * q + (r + 15)"] by (simp add: algebra_simps)
  have "(16 * q + (r + 15)) div 16 = q + t"
    unfolding t_def by simp
  then have c6: "c_div (16 * q + (r + 15)) 16 = q + t"
    using q r by (simp add: c_div_nonneg)
  have m: "(q + t) * 2 = 2 * q + 2 * t" by simp
  have c7: "cint ((q + t) * 2) = (q + t) * 2"
    unfolding m using q t by (intro cint_id) linarith+
  have c8: "cint ((q + t) * 2 - q) = (q + t) * 2 - q"
    unfolding m using q t by (intro cint_id) linarith+
  have c9: "cint ((q + t) * 2 - q + n) = (q + t) * 2 - q + n"
    unfolding m using q t assms by (intro cint_id) linarith+
  have "t \<le> 1 \<or> q \<le> 97612891"
  proof (cases "q \<le> 97612891")
    case False
    then have "r \<le> 5" using q n assms by linarith
    then have "(r + 15) div 16 \<le> 20 div 16" by (intro zdiv_mono1) simp_all
    then show ?thesis unfolding t_def by simp
  qed simp
  then have c10: "cint ((q + t) * 2 - q + n + 16) = (q + t) * 2 - q + n + 16"
    unfolding m using q t r n assms by (intro cint_id) linarith+
  show ?thesis
    unfolding e c1 c2 c3 c5 c6 c7 c8 c9 c10
    unfolding t_def r_def q_def by simp
qed

text \<open>
  The arithmetic core of the near-monotonicity: a length gains one byte per \<open>p\<close> input
  bytes and two per started group of \<open>p - 6\<close> (or \<open>p - 5\<close>); the group term falls
  back from 4 to 0 when the length reaches a multiple of \<open>p\<close>, which costs 2.
\<close>

lemma div_less_3:
  fixes x g :: int
  assumes "x < 3 * g" "0 < g"
  shows "x div g \<le> 2"
proof (rule ccontr)
  assume "\<not> x div g \<le> 2"
  then have "3 \<le> x div g" by simp
  then have "g * 3 \<le> g * (x div g)" using assms(2) by (intro mult_left_mono) simp_all
  moreover have "g * (x div g) \<le> x"
    using assms(2) by (metis mult_div_mod_eq pos_mod_sign le_add_same_cancel1)
  ultimately show False using assms(1) by linarith
qed

lemma group_bound_step:
  fixes a b p g :: int
  assumes "0 \<le> a" "a \<le> b" "0 < p" "0 < g" "g < p" "p + g - 1 < 3 * g"
  shows "a + a div p + 2 * ((a mod p + (g - 1)) div g)
           \<le> b + b div p + 2 * ((b mod p + (g - 1)) div g) + 2"
proof -
  have qq: "a div p \<le> b div p" using assms(2,3) by (intro zdiv_mono1)
  have "a mod p + (g - 1) < 3 * g" using assms pos_mod_bound [of p a] by linarith
  then have ca: "(a mod p + (g - 1)) div g \<le> 2" using assms(4) by (rule div_less_3)
  have "0 \<le> b mod p + (g - 1)" using assms pos_mod_sign [of p b] by linarith
  then have cb: "0 \<le> (b mod p + (g - 1)) div g" using assms(4) by (simp add: pos_imp_zdiv_nonneg_iff)
  show ?thesis
  proof (cases "a = b")
    case True then show ?thesis by simp
  next
    case ne: False
    show ?thesis
    proof (cases "(b mod p + (g - 1)) div g = 0")
      case True
      have "b mod p + (g - 1) = g * ((b mod p + (g - 1)) div g) + (b mod p + (g - 1)) mod g"
        by simp
      moreover have "(b mod p + (g - 1)) mod g < g" "0 \<le> b mod p"
        using assms by simp_all
      ultimately have "b mod p = 0" using True by simp
      then have "b = p * (b div p)" by (metis add.right_neutral mult_div_mod_eq)
      moreover have "p * (a div p) \<le> a"
        using assms(3) by (metis mult_div_mod_eq pos_mod_sign le_add_same_cancel1)
      moreover have "a < b" using ne assms by simp
      ultimately have "p * (a div p) < p * (b div p)" by linarith
      then have "a div p < b div p" using assms(3) by simp
      then show ?thesis using ca cb True assms ne by linarith
    next
      case False
      then have "1 \<le> (b mod p + (g - 1)) div g" using cb by linarith
      then show ?thesis using qq ca assms ne by linarith
    qed
  qed
qed

lemma compress_bound_zero: "lzav_compress_bound 0 = 16" "lzav_compress_bound_hi 0 = 16"
  by (simp_all add: lzav_compress_bound_def lzav_compress_bound_hi_def)

lemma compress_bound_ge:
  assumes "0 < n" "n \<le> 2133261884"
  shows "n + 16 \<le> lzav_compress_bound n"
proof -
  have "0 \<le> n div 150" "0 \<le> (n mod 150 + 143) div 144" using assms by auto
  then show ?thesis unfolding compress_bound_closed [OF assms] by linarith
qed

lemma compress_bound_hi_ge:
  assumes "0 < n" "n \<le> 2049870737"
  shows "n + 16 \<le> lzav_compress_bound_hi n"
proof -
  have "0 \<le> n div 21" "0 \<le> (n mod 21 + 15) div 16" using assms by auto
  then show ?thesis unfolding compress_bound_hi_closed [OF assms] by linarith
qed

lemma compress_bound_near_mono:
  assumes "0 \<le> a" "a \<le> b" "b \<le> 2133261884"
  shows "lzav_compress_bound a \<le> lzav_compress_bound b + 2"
proof (cases "a = 0")
  case True
  show ?thesis
  proof (cases "b = 0")
    case True with \<open>a = 0\<close> show ?thesis by simp
  next
    case False
    then have "0 < b" using assms by simp
    from compress_bound_ge [OF this assms(3)] \<open>0 < b\<close> show ?thesis
      unfolding True compress_bound_zero by linarith
  qed
next
  case False
  then have a: "0 < a" "a \<le> 2133261884" and b: "0 < b" using assms by auto
  from group_bound_step [of a b 150 144] assms(1,2) show ?thesis
    unfolding compress_bound_closed [OF a] compress_bound_closed [OF b assms(3)] by simp
qed

lemma compress_bound_hi_near_mono:
  assumes "0 \<le> a" "a \<le> b" "b \<le> 2049870737"
  shows "lzav_compress_bound_hi a \<le> lzav_compress_bound_hi b + 2"
proof (cases "a = 0")
  case True
  show ?thesis
  proof (cases "b = 0")
    case True with \<open>a = 0\<close> show ?thesis by simp
  next
    case False
    then have "0 < b" using assms by simp
    from compress_bound_hi_ge [OF this assms(3)] \<open>0 < b\<close> show ?thesis
      unfolding True compress_bound_zero by linarith
  qed
next
  case False
  then have a: "0 < a" "a \<le> 2049870737" and b: "0 < b" using assms by auto
  from group_bound_step [of a b 21 16] assms(1,2) show ?thesis
    unfolding compress_bound_hi_closed [OF a] compress_bound_hi_closed [OF b assms(3)] by simp
qed

text \<open>
  Claim C5, as stated, fails: neither bound is monotone. The group term of the formula
  drops when the length reaches a multiple of 150 (of 21 for the higher-ratio bound):
  149 source bytes need 169, 150 need 167; 20 need 40, 21 need 38. The last conjunct
  shows the second way the statement fails on C integers: at \<^verbatim>\<open>INT_MAX\<close> the sum no
  longer fits 32 bits.
\<close>

theorem C5_bound_not_monotone:
  "(0::int) \<le> 149 \<and> (149::int) \<le> 150
   \<and> lzav_compress_bound 149 = 169 \<and> lzav_compress_bound 150 = 167
   \<and> lzav_compress_bound_hi 20 = 40 \<and> lzav_compress_bound_hi 21 = 38
   \<and> \<not> lzav_compress_bound 149 \<le> lzav_compress_bound 150
   \<and> \<not> lzav_compress_bound_hi 20 \<le> lzav_compress_bound_hi 21
   \<and> \<not> 2147483647 < lzav_compress_bound 2147483647"
  by (simp add: lzav_compress_bound_def lzav_compress_bound_hi_def c_div_def cint_def)

text \<open>
  Claim C5, amended: for lengths whose bound fits a C \<^verbatim>\<open>int\<close> (up to 2133261884 for
  \<^verbatim>\<open>lzav_compress_bound\<close>, up to 2049870737 for \<^verbatim>\<open>lzav_compress_bound_hi\<close>) each bound
  is monotone up to 2, that is \<open>bound a \<le> bound b + 2\<close> whenever \<open>0 \<le> a \<le> b\<close>, and is
  strictly greater than a positive length.
\<close>

theorem C5_bound_near_monotone_and_above:
  assumes "0 \<le> a" "a \<le> b"
  shows "(b \<le> 2133261884 \<longrightarrow>
            lzav_compress_bound a \<le> lzav_compress_bound b + 2
            \<and> (0 < b \<longrightarrow> b < lzav_compress_bound b))
       \<and> (b \<le> 2049870737 \<longrightarrow>
            lzav_compress_bound_hi a \<le> lzav_compress_bound_hi b + 2
            \<and> (0 < b \<longrightarrow> b < lzav_compress_bound_hi b))"
  using assms compress_bound_near_mono [of a b] compress_bound_hi_near_mono [of a b]
    compress_bound_ge [of b] compress_bound_hi_ge [of b]
  by auto

text \<open>Witness for C5: the theorem at the lengths 149 and 150, where monotonicity fails.\<close>

theorem C5_bound_witness:
  "lzav_compress_bound 149 \<le> lzav_compress_bound 150 + 2
   \<and> 150 < lzav_compress_bound 150
   \<and> lzav_compress_bound_hi 149 \<le> lzav_compress_bound_hi 150 + 2
   \<and> 150 < lzav_compress_bound_hi 150"
  using C5_bound_near_monotone_and_above [of 149 150] by simp

section \<open>The tiny-data path\<close>

lemma store_fits:
  assumes "0 \<le> p" "nat p + length bs \<le> length xs"
  shows "store xs p bs = take (nat p) xs @ bs @ drop (nat p + length bs) xs"
  using assms by (simp add: store_def)

lemma tiny_stream_bytes:
  assumes "n + 2 \<le> length d" "n \<le> length s"
  shows "store (store (store d 0 [a]) 1 [b]) 2 (take n s) = [a, b] @ take n s @ drop (n + 2) d"
proof -
  from assms obtain x y r where d: "d = x # y # r" "n \<le> length r"
    by (cases d; cases "tl d") auto
  from d assms(2) show ?thesis
    by (simp add: store_def min_absorb2)
qed

lemma tiny_compress_result:
  assumes "src \<noteq> 0" "dst \<noteq> 0" "src \<noteq> dst" "1 \<le> srcl" "srcl \<le> 32" "srcl + 2 \<le> dstl"
    "srcl \<le> int (length s)" "dstl \<le> int (length d)"
  shows "lzav_tiny_compress src s dst d srcl dstl =
           Inr (srcl + 2,
                [u8 (push_bit 4 LZAV_FMT_CUR OR 6), u8 srcl] @ take (nat srcl) s @ drop (nat srcl + 2) d)"
proof -
  from assms have a: "nat srcl + 2 \<le> length d" "nat srcl \<le> length s" by linarith+
  have "lzav_tiny_compress src s dst d srcl dstl =
          Inr (srcl + 2,
               store (store (store d 0 [u8 (push_bit 4 LZAV_FMT_CUR OR 6)]) 1 [u8 srcl]) 2
                 (take (nat srcl) s))"
    using assms
    by (simp add: lzav_tiny_compress_def LZAV_TINY_MAX_def LZAV_REF_MIN_def lzav_memcpy_def
        slice_def Let_def)
  with tiny_stream_bytes [OF a] show ?thesis by simp
qed

text \<open>
  Claim C10. For a source of 1 to 32 bytes, two distinct non-null buffers and a
  destination of at least \<open>srcl + 2\<close> bytes, \<^verbatim>\<open>lzav_compress\<close> returns \<open>srcl + 2\<close>, and the
  destination then starts with the prefix byte \<^verbatim>\<open>LZAV_FMT_CUR << 4 | 6\<close>, a byte that
  holds \<open>srcl\<close> and the \<open>srcl\<close> source bytes; the rest of the destination is as it was.
  Neither the content of the source nor \<open>ext_buf\<close>, \<open>ext_bufl\<close> or the allocator has a
  part in it.
\<close>

theorem C10_tiny_compress:
  assumes "src \<noteq> 0" "dst \<noteq> 0" "src \<noteq> dst" "1 \<le> srcl" "srcl \<le> 32" "srcl + 2 \<le> dstl"
    "srcl \<le> int (length s)" "dstl \<le> int (length d)"
  shows "lzav_compress src s dst d srcl dstl ext_buf ext_bufl alloc =
           Inr (srcl + 2,
                [u8 (push_bit 4 LZAV_FMT_CUR OR 6), u8 srcl] @ take (nat srcl) s @ drop (nat srcl + 2) d)"
  using assms tiny_compress_result [OF assms]
  by (simp add: lzav_compress_def LZAV_TINY_MAX_def)

theorem C10_tiny_compress_witness:
  "lzav_compress 1 [0x61, 0x62, 0x63] 2 (replicate 8 0) 3 8 7 4096 (\<lambda>n. False) =
     Inr (5, [0x26, 3, 0x61, 0x62, 0x63] @ replicate 3 0)"
  using C10_tiny_compress [of 1 2 3 8 "[0x61, 0x62, 0x63]" "replicate 8 0" 7 4096 "\<lambda>n. False"]
  by (simp add: u8_def LZAV_FMT_CUR_def numeral_Bit0 [symmetric])

text \<open>
  Claim C3. One byte compressed by \<^verbatim>\<open>lzav_compress\<close> into a destination one byte short
  of \<open>lzav_compress_bound 1\<close>, which is 19: the tiny-data path tests the destination
  against \<open>srcl + 2\<close> only, and the call returns 3, as it does with the full 19 bytes. It
  does not return 0.
\<close>

theorem C3_tiny_ignores_bound:
  "lzav_compress_bound 1 = 19
   \<and> lzav_compress 1 [0x41] 2 (replicate 19 0) 1 (lzav_compress_bound 1) 0 0 (\<lambda>n. True)
       = Inr (3, [0x26, 1, 0x41] @ replicate 16 0)
   \<and> lzav_compress 1 [0x41] 2 (replicate 18 0) 1 (lzav_compress_bound 1 - 1) 0 0 (\<lambda>n. True)
       = Inr (3, [0x26, 1, 0x41] @ replicate 15 0)"
  by code_simp

text \<open>
  Claim C4. \<^verbatim>\<open>lzav_compress\<close> with a null source, one byte to compress and room for three:
  the tiny-data path is entered before the pointers are tested, writes its two header
  bytes and copies from the null pointer. The call does not return 0.
\<close>

theorem C4_null_source_tiny:
  "lzav_compress 0 [] 2 [0, 0, 0] 1 3 0 0 (\<lambda>n. True) = Inl Null_deref"
  by code_simp

text \<open>
  Claim C6. \<^verbatim>\<open>lzav_compress\<close> on the one byte \<open>0x41\<close> succeeds with a stream of three
  bytes, the prefix, the length and the byte: fewer than \<^verbatim>\<open>LZAV_LIT_FIN\<close>, and with no
  finishing block.
\<close>

theorem C6_tiny_stream_has_no_finishing_block:
  "lzav_compress 1 [0x41] 2 (replicate 19 0) 1 19 0 0 (\<lambda>n. True)
     = Inr (3, [0x26, 1, 0x41] @ replicate 16 0)
   \<and> (3::int) < LZAV_LIT_FIN"
  by code_simp

text \<open>
  Claim C2. \<^verbatim>\<open>lzav_decompress\<close> on the three bytes that \<^verbatim>\<open>lzav_compress\<close> makes of
  \<open>0x41\<close>, with an expected length of 5: the call returns 1, not 5 and not an error.
\<close>

theorem C2_tiny_path_ignores_dstl:
  "lzav_decompress 1 [0x26, 1, 0x41] 2 [0, 0, 0, 0, 0] 3 5 = Inr (1, [0x41, 0, 0, 0, 0])"
  by code_simp

text \<open>
  Claim C9. The stream that \<^verbatim>\<open>lzav_compress\<close> makes of the one byte \<open>0x41\<close>, given whole
  to \<^verbatim>\<open>lzav_decompress_partial\<close> with an expected length of 1: the call returns 0 and
  writes nothing.
\<close>

theorem C9_partial_rejects_tiny_stream:
  "lzav_compress 1 [0x41] 2 [0, 0, 0] 1 3 0 0 (\<lambda>n. True) = Inr (3, [0x26, 1, 0x41])
   \<and> lzav_decompress_partial 2 [0x26, 1, 0x41] 1 [0] 3 1 = Inr (0, [0])"
  by code_simp

section \<open>Dead offsets in the default compressor\<close>

lemma write_lit_2_advances:
  assumes "0 \<le> lc"
  shows "op < snd (write_lit_2 s dst op lc cv ipa)"
proof -
  have "0 < int (length (u8 cv # lzav_put_len (lc - 16)))" by simp
  with assms show ?thesis
    unfolding write_lit_2_def Let_def by (simp only: snd_conv split: if_split) linarith
qed

lemma lzav_write_blk_2_advances:
  assumes "0 \<le> lc" "lzav_write_blk_2 s dst op lc rc d ipa cbp csh mref = (dst1, op1, cbp1, csh1)"
  shows "op < op1"
proof -
  define w where "w = write_lit_2 s (store dst cbp [byte_at dst cbp OR u8 (drop_bit (nat csh) (sz (push_bit 8 d)))])
                        op lc (push_bit 6 (drop_bit (nat csh) d AND 3)) ipa"
  have "op < snd w" unfolding w_def by (rule write_lit_2_advances [OF assms(1)])
  with assms(2) show ?thesis
    unfolding lzav_write_blk_2_def Let_def w_def [symmetric]
    by (auto split: if_splits prod.splits)
qed

lemma sz_nonneg: "0 \<le> sz x"
  by (simp add: sz_def)

lemma match_extend_lc_nonneg:
  assumes "match_extend s ipe ip ipa wp d = (rc, ip1, lc)"
  shows "0 \<le> lc"
  using assms sz_nonneg unfolding match_extend_def Let_def
  by (auto split: if_splits)

lemma compress_match_emits: "c_op st < c_op (compress_match s ipe hp iw1 wp d st)"
proof -
  obtain rc ip1 lc where e: "match_extend s ipe (c_ip st) (c_ipa st) wp d = (rc, ip1, lc)"
    by (cases "match_extend s ipe (c_ip st) (c_ipa st) wp d") auto
  obtain dst1 op1 cbp1 csh1 where
    w: "lzav_write_blk_2 s (c_dst st) (c_op st) lc rc d (c_ipa st) (c_cbp st) (c_csh st) LZAV_REF_MIN
          = (dst1, op1, cbp1, csh1)"
    by (cases "lzav_write_blk_2 s (c_dst st) (c_op st) lc rc d (c_ipa st) (c_cbp st) (c_csh st)
                 LZAV_REF_MIN") auto
  from lzav_write_blk_2_advances [OF match_extend_lc_nonneg [OF e] w]
  show ?thesis by (simp add: compress_match_def Let_def e w)
qed

lemma compress_d_oob_dead:
  "c_ip (compress_d_oob hp iw1 d st) = c_ip st + 1 \<and> c_op (compress_d_oob hp iw1 d st) = c_op st
   \<and> c_dst (compress_d_oob hp iw1 d st) = c_dst st"
  by (simp add: compress_d_oob_def Let_def)

text \<open>
  The source used below: sixteen bytes and then a run of 24 bytes \<open>0x61\<close>, 40 bytes.
  \<open>run_state ip\<close> is the state of the loop of \<^verbatim>\<open>lzav_compress\<close> for it at the offset
  \<open>ip\<close>, before anything is written: \<open>run_state 16\<close> is the state on entry, with every
  tuple of the hash table holding the four bytes at offset 16 and the offset 16.
\<close>

definition run_src :: "byte list" where
  "run_src = [0, 1, 2, 3, 4, 5, 6, 7, 8, 9, 10, 11, 12, 13, 14, 15] @ replicate 24 0x61"

definition run_state :: "int \<Rightarrow> cstate" where
  "run_state ip = \<lparr>c_ip = ip, c_ipa = 0, c_op = 1, c_cbp = 1, c_csh = 0,
                    c_mavg = push_bit 21 100, c_rndb = 0,
                    c_ht = init_table (rd32 run_src 16) 16,
                    c_dst = store (replicate 60 0) 0 [0x26]\<rparr>"

lemma run_src_byte:
  assumes "16 \<le> p" "p < 40"
  shows "byte_at run_src p = 0x61"
proof -
  from assms have "16 \<le> nat p" "nat p - 16 < 24" by linarith+
  then show ?thesis by (simp add: byte_at_def run_src_def nth_append)
qed

lemma run_src_words:
  assumes "16 \<le> p" "p \<le> 30"
  shows "rd32 run_src p = 0x61616161" "rd16 run_src (p + 4) = 0x6161"
  using assms by (simp_all add: rd32_def rd16_def run_src_byte)

lemma run_slot:
  "hash_slot (lzav_hash 0x61616161 0x6161) 496 = 44"
  "hash_slot (lzav_hash 0x61616161 (ucast (0x6161 :: u16))) 496 = 44"
  by code_simp+

lemma run_candidate:
  assumes "16 \<le> ip" "ip \<le> 30"
  shows "compress_candidate run_src 496 (run_state ip) = Some 16"
  using assms run_src_words [of ip] run_src_words [of 16]
  by (simp add: compress_candidate_def run_state_def Let_def run_slot find_tuple_def init_table_def)

lemma run_dead_round:
  assumes "16 \<le> ip" "ip \<le> 23"
  shows "lzav_compress_round run_src 34 496 (run_state ip) = run_state (ip + 1)"
proof -
  from assms have d: "match_distance ip 16 = ip - 16" by (simp add: match_distance_def sz_def)
  from assms have f: "find_tuple run_src (init_table (rd32 run_src 16) 16) 44 0x61616161 0x6161 = Some 16"
    using run_src_words [of 16] by (simp add: find_tuple_def init_table_def)
  from assms show ?thesis
    using run_src_words [of ip]
    by (simp add: lzav_compress_round_def run_state_def Let_def run_slot f d compress_d_oob_def
        LZAV_WIN_LEN_def)
qed

text \<open>
  Six rounds from the entry state lead to offset 22. There the table gives the candidate
  at offset 16, the distance is 6, which is \<^verbatim>\<open>LZAV_REF_MIN\<close>, and the round is dead: one
  byte forwards and nothing written.
\<close>

theorem C8_distance_6_is_dead:
  "(lzav_compress_round run_src 34 496 ^^ 6) (run_state 16) = run_state 22
   \<and> compress_candidate run_src 496 (run_state 22) = Some 16
   \<and> match_distance (c_ip (run_state 22)) 16 = 6
   \<and> LZAV_REF_MIN \<le> match_distance (c_ip (run_state 22)) 16
   \<and> match_distance (c_ip (run_state 22)) 16 \<le> LZAV_WIN_LEN - 1
   \<and> c_ip (lzav_compress_round run_src 34 496 (run_state 22)) = c_ip (run_state 22) + 1
   \<and> c_op (lzav_compress_round run_src 34 496 (run_state 22)) = c_op (run_state 22)
   \<and> c_dst (lzav_compress_round run_src 34 496 (run_state 22)) = c_dst (run_state 22)"
proof -
  have six: "(lzav_compress_round run_src 34 496 ^^ 6) (run_state 16) = run_state 22"
    using run_dead_round [of 16] run_dead_round [of 17] run_dead_round [of 18]
      run_dead_round [of 19] run_dead_round [of 20] run_dead_round [of 21]
    by (simp add: numeral_eq_Suc)
  have d: "match_distance (c_ip (run_state 22)) 16 = 6"
    by (simp add: run_state_def match_distance_def sz_def)
  from six d run_candidate [of 22] run_dead_round [of 22] show ?thesis
    by (simp add: LZAV_REF_MIN_def LZAV_WIN_LEN_def) (simp add: run_state_def)
qed

text \<open>
  Claim C8, amended. In a round of the default compressor that finds a candidate in the
  hash table, at distance \<open>d\<close>: the round is dead (the input pointer advances by 1 and the
  output pointer stays) exactly when \<open>d < 8\<close> or \<open>d > LZAV_WIN_LEN - 1\<close>, and then the
  destination is untouched; every candidate with \<open>8 \<le> d \<le> LZAV_WIN_LEN - 1\<close> goes to
  extension and the writing of a block, which moves the output pointer forwards. The
  threshold is 8, not \<^verbatim>\<open>LZAV_REF_MIN\<close>, which is 6.
\<close>

theorem C8_dead_offset_threshold:
  assumes "compress_candidate s hmask st = Some wp"
  shows "((c_ip (lzav_compress_round s ipe hmask st) = c_ip st + 1
            \<and> c_op (lzav_compress_round s ipe hmask st) = c_op st)
          = (match_distance (c_ip st) wp < 8 \<or> match_distance (c_ip st) wp > LZAV_WIN_LEN - 1))
       \<and> (match_distance (c_ip st) wp < 8 \<or> match_distance (c_ip st) wp > LZAV_WIN_LEN - 1
            \<longrightarrow> c_dst (lzav_compress_round s ipe hmask st) = c_dst st)
       \<and> (8 \<le> match_distance (c_ip st) wp \<and> match_distance (c_ip st) wp \<le> LZAV_WIN_LEN - 1
            \<longrightarrow> lzav_compress_round s ipe hmask st
                  = compress_match s ipe
                      (hash_slot (lzav_hash (rd32 s (c_ip st)) (ucast (rd16 s (c_ip st + 4)))) hmask)
                      (rd32 s (c_ip st)) wp (match_distance (c_ip st) wp) st
                \<and> c_op st < c_op (lzav_compress_round s ipe hmask st))"
proof -
  define hp where "hp = hash_slot (lzav_hash (rd32 s (c_ip st)) (ucast (rd16 s (c_ip st + 4)))) hmask"
  define d where "d = match_distance (c_ip st) wp"
  from assms have f: "find_tuple s (c_ht st) hp (rd32 s (c_ip st)) (rd16 s (c_ip st + 4)) = Some wp"
    by (simp add: compress_candidate_def Let_def hp_def)
  have r: "lzav_compress_round s ipe hmask st =
             (if d < 8 \<or> d > LZAV_WIN_LEN - 1 then compress_d_oob hp (rd32 s (c_ip st)) d st
              else compress_match s ipe hp (rd32 s (c_ip st)) wp d st)"
    using f by (simp add: lzav_compress_round_def Let_def hp_def [symmetric] d_def)
  show ?thesis
  proof (cases "d < 8 \<or> d > LZAV_WIN_LEN - 1")
    case True
    with r compress_d_oob_dead [of hp "rd32 s (c_ip st)" d st] show ?thesis
      unfolding d_def [symmetric] hp_def [symmetric] by auto
  next
    case False
    with r compress_match_emits [of st s ipe hp "rd32 s (c_ip st)" wp d] show ?thesis
      unfolding d_def [symmetric] hp_def [symmetric] by auto
  qed
qed

text \<open>The theorem at offset 24 of the same source, where the distance is 8 and a block
  is written.\<close>

theorem C8_dead_offset_threshold_witness:
  "compress_candidate run_src 496 (run_state 24) = Some 16
   \<and> match_distance (c_ip (run_state 24)) 16 = 8
   \<and> c_op (run_state 24) < c_op (lzav_compress_round run_src 34 496 (run_state 24))"
proof -
  have c: "compress_candidate run_src 496 (run_state 24) = Some 16"
    using run_candidate [of 24] by simp
  have d: "match_distance (c_ip (run_state 24)) 16 = 8"
    by (simp add: run_state_def match_distance_def sz_def)
  have w: "8 \<le> match_distance (c_ip (run_state 24)) 16
           \<and> match_distance (c_ip (run_state 24)) 16 \<le> LZAV_WIN_LEN - 1"
    by (simp add: d LZAV_WIN_LEN_def)
  from C8_dead_offset_threshold [OF c, of 34]
  have "c_op (run_state 24) < c_op (lzav_compress_round run_src 34 496 (run_state 24))"
    using w by blast
  with c d show ?thesis by blast
qed

section \<open>Overlapping references in the decoder\<close>














section \<open>Round trip\<close>

text \<open>
  Claim C1. \<^verbatim>\<open>lzav_compress_hi\<close> on the sixteen bytes 0 to 15, with a destination of
  \<open>lzav_compress_bound_hi 16\<close>, which is 34 bytes, succeeds with the 19 bytes \<open>0x25\<close>,
  \<open>0x00\<close>, \<open>0x00\<close> and the sixteen literals: a prefix and a finishing block of sixteen
  literals. \<^verbatim>\<open>lzav_decompress\<close> on these 19 bytes with the expected length 16 takes them,
  as it takes every source of at most 34 bytes in the current format, for a stream of
  its tiny-data path, reads the length 0 from the second byte, copies nothing and
  returns 0. \<^verbatim>\<open>lzav_decompress_2\<close>, which it does not reach, decodes the same bytes to
  the source.
\<close>

theorem C1_hi_stream_read_as_tiny:
  "lzav_compress_bound_hi 16 = 34
   \<and> lzav_compress_hi 1 [0, 1, 2, 3, 4, 5, 6, 7, 8, 9, 10, 11, 12, 13, 14, 15] 2 (replicate 34 0)
         16 34 (\<lambda>n. True)
       = Inr (19, [0x25, 0, 0, 0, 1, 2, 3, 4, 5, 6, 7, 8, 9, 10, 11, 12, 13, 14, 15]
                    @ replicate 15 0)
   \<and> lzav_decompress 2 [0x25, 0, 0, 0, 1, 2, 3, 4, 5, 6, 7, 8, 9, 10, 11, 12, 13, 14, 15]
         1 (replicate 16 0) 19 16
       = Inr (0, replicate 16 0)
   \<and> lzav_decompress_2 [0x25, 0, 0, 0, 1, 2, 3, 4, 5, 6, 7, 8, 9, 10, 11, 12, 13, 14, 15]
         (replicate 16 0) 19 16
       = (16, 16, [0, 1, 2, 3, 4, 5, 6, 7, 8, 9, 10, 11, 12, 13, 14, 15])"
  by code_simp

end
